theory Spec2Isabelle
  imports Main "HOL-Library.Multiset"
begin

section \<open>JavaScript strings\<close>

text \<open>
  A JavaScript string is a sequence of UTF-16 code units. The model keeps the code units
  below 256 (the Latin-1 range), which is what \<^typ>\<open>char\<close> holds; \<open>code c\<close> is the
  numeric value of a code unit.
\<close>

definition code :: "char \<Rightarrow> nat" where
  "code c = of_char c"

definition inRange :: "char \<Rightarrow> char \<Rightarrow> char \<Rightarrow> bool" where
  "inRange lo hi c = (code lo \<le> code c \<and> code c \<le> code hi)"

text \<open>
  White space as \<open>String.prototype.trim\<close> and the class \<open>\s\<close> see it (WhiteSpace and
  LineTerminator of ECMAScript): TAB, LF, VT, FF, CR, SPACE and NBSP in this range.
\<close>

definition isSpace :: "char \<Rightarrow> bool" where
  "isSpace c = (code c = 9 \<or> code c = 10 \<or> code c = 11 \<or> code c = 12 \<or> code c = 13
                \<or> code c = 32 \<or> code c = 160)"

definition isDigit :: "char \<Rightarrow> bool" where
  "isDigit c = inRange CHR ''0'' CHR ''9'' c"

definition isLower :: "char \<Rightarrow> bool" where
  "isLower c = inRange CHR ''a'' CHR ''z'' c"

definition isUpper :: "char \<Rightarrow> bool" where
  "isUpper c = inRange CHR ''A'' CHR ''Z'' c"

text \<open>The class \<open>\w\<close> (no unicode flag): \<open>[A-Za-z0-9_]\<close>.\<close>

definition isWord :: "char \<Rightarrow> bool" where
  "isWord c = (isUpper c \<or> isLower c \<or> isDigit c \<or> c = CHR ''_'')"

text \<open>
  \<open>String.prototype.toLowerCase\<close> on one code unit: \<open>A-Z\<close> and the Latin-1 capitals
  U+00C0 to U+00DE (the multiplication sign U+00D7 apart) move up by 32.
\<close>

definition toLowerChar :: "char \<Rightarrow> char" where
  "toLowerChar c =
     (if isUpper c \<or> (192 \<le> code c \<and> code c \<le> 222 \<and> code c \<noteq> 215)
      then char_of (code c + 32) else c)"

definition toLowerCase :: "string \<Rightarrow> string" where
  "toLowerCase s = map toLowerChar s"

definition trim :: "string \<Rightarrow> string" where
  "trim s = rev (dropWhile isSpace (rev (dropWhile isSpace s)))"

text \<open>\<open>s.startsWith(t)\<close> and \<open>s.includes(t)\<close>.\<close>

fun startsWith :: "string \<Rightarrow> string \<Rightarrow> bool" where
  "startsWith s [] = True"
| "startsWith [] (t # ts) = False"
| "startsWith (c # cs) (t # ts) = (c = t \<and> startsWith cs ts)"

fun includesStr :: "string \<Rightarrow> string \<Rightarrow> bool" where
  "includesStr [] t = (t = [])"
| "includesStr (c # cs) t = (startsWith (c # cs) t \<or> includesStr cs t)"


section \<open>Regular expressions\<close>

text \<open>
  The patterns of the source use character classes, sequence, alternation, \<open>?\<close>, \<open>+\<close>
  and \<open>*\<close>, anchored at both ends and without flags. For such a pattern
  \<open>RegExp.prototype.test\<close> decides whether the whole string is in the pattern's
  language. Patterns are kept as data and matched by derivatives.
\<close>

datatype rexp =
    Nothing
  | Empty
  | Cls "char \<Rightarrow> bool"
  | Alt rexp rexp
  | Seq rexp rexp
  | Star rexp

definition Opt :: "rexp \<Rightarrow> rexp" where
  "Opt r = Alt r Empty"

definition Plus1 :: "rexp \<Rightarrow> rexp" where
  "Plus1 r = Seq r (Star r)"

definition Lit :: "char \<Rightarrow> rexp" where
  "Lit a = Cls (\<lambda>c. c = a)"

fun nullable :: "rexp \<Rightarrow> bool" where
  "nullable Nothing = False"
| "nullable Empty = True"
| "nullable (Cls p) = False"
| "nullable (Alt r s) = (nullable r \<or> nullable s)"
| "nullable (Seq r s) = (nullable r \<and> nullable s)"
| "nullable (Star r) = True"

fun deriv :: "char \<Rightarrow> rexp \<Rightarrow> rexp" where
  "deriv c Nothing = Nothing"
| "deriv c Empty = Nothing"
| "deriv c (Cls p) = (if p c then Empty else Nothing)"
| "deriv c (Alt r s) = Alt (deriv c r) (deriv c s)"
| "deriv c (Seq r s) =
     (if nullable r then Alt (Seq (deriv c r) s) (deriv c s) else Seq (deriv c r) s)"
| "deriv c (Star r) = Seq (deriv c r) (Star r)"

fun matches :: "rexp \<Rightarrow> string \<Rightarrow> bool" where
  "matches r [] = nullable r"
| "matches r (c # cs) = matches (deriv c r) cs"

text \<open>The language of a pattern, against which the matcher is justified.\<close>

inductive_set Kleene :: "string set \<Rightarrow> string set" for A :: "string set" where
  Kleene_nil: "[] \<in> Kleene A"
| Kleene_app: "u \<in> A \<Longrightarrow> v \<in> Kleene A \<Longrightarrow> u @ v \<in> Kleene A"

fun lang :: "rexp \<Rightarrow> string set" where
  "lang Nothing = {}"
| "lang Empty = {[]}"
| "lang (Cls p) = {[c] | c. p c}"
| "lang (Alt r s) = lang r \<union> lang s"
| "lang (Seq r s) = {u @ v | u v. u \<in> lang r \<and> v \<in> lang s}"
| "lang (Star r) = Kleene (lang r)"



definition test :: "rexp \<Rightarrow> string \<Rightarrow> bool" where
  "test r s = matches r s"

subsection \<open>The patterns of the source\<close>

text \<open>\<^verbatim>\<open>/^[a-z0-9]+(?:-[a-z0-9]+)*$/\<close> (the route handler).\<close>

definition lowerAlnum :: "char \<Rightarrow> bool" where
  "lowerAlnum c = (isLower c \<or> isDigit c)"

definition slugRegex :: rexp where
  "slugRegex =
     Seq (Plus1 (Cls lowerAlnum)) (Star (Seq (Lit CHR ''-'') (Plus1 (Cls lowerAlnum))))"

text \<open>\<^verbatim>\<open>/^[^\s@]+@[^\s@]+\.[^\s@]+$/\<close> (createBooking and the Booking schema).\<close>

definition notSpaceAt :: "char \<Rightarrow> bool" where
  "notSpaceAt c = (\<not> isSpace c \<and> c \<noteq> CHR ''@'')"

definition emailRegex :: rexp where
  "emailRegex =
     Seq (Plus1 (Cls notSpaceAt))
       (Seq (Lit CHR ''@'')
         (Seq (Plus1 (Cls notSpaceAt))
           (Seq (Lit CHR ''.'') (Plus1 (Cls notSpaceAt)))))"

text \<open>\<^verbatim>\<open>/^([0-1]?[0-9]|2[0-3]):[0-5][0-9]$/\<close> (the Event pre-save hook).\<close>

definition timeRegex :: rexp where
  "timeRegex =
     Seq (Alt (Seq (Opt (Cls (inRange CHR ''0'' CHR ''1''))) (Cls (inRange CHR ''0'' CHR ''9'')))
              (Seq (Lit CHR ''2'') (Cls (inRange CHR ''0'' CHR ''3''))))
       (Seq (Lit CHR '':'')
         (Seq (Cls (inRange CHR ''0'' CHR ''5'')) (Cls (inRange CHR ''0'' CHR ''9''))))"


section \<open>Thrown values\<close>

text \<open>
  What a \<open>throw\<close> or a rejected promise carries: an \<open>Error\<close> with its message, or a
  value that is no \<open>Error\<close>.
\<close>

datatype thrown = Error string | NonError


section \<open>Dates\<close>

text \<open>
  \<open>new Date(s)\<close> holds a time value, milliseconds since 1970-01-01T00:00:00Z, or NaN
  (\<open>None\<close>). ECMAScript fixes the result for strings in its date-time format and leaves
  every other string to the engine. \<open>isoParse\<close> reads the forms whose value does not
  depend on the engine or the local time zone: a date \<open>YYYY\<close>, \<open>YYYY-MM\<close> or
  \<open>YYYY-MM-DD\<close>, alone or followed by \<open>T\<close>, a time \<open>HH:mm\<close>, \<open>HH:mm:ss\<close> or
  \<open>HH:mm:ss.sss\<close> and an offset \<open>Z\<close> or \<open>+HH:mm\<close>/\<open>-HH:mm\<close>. Every other string is
  handed to the parameter \<open>engine\<close>, the engine's own parser.
\<close>

type_synonym dateEngine = "string \<Rightarrow> int option"

definition msPerDay :: int where
  "msPerDay = 86400000"

definition isLeapYear :: "int \<Rightarrow> bool" where
  "isLeapYear y = (y mod 4 = 0 \<and> (y mod 100 \<noteq> 0 \<or> y mod 400 = 0))"

definition daysInMonth :: "int \<Rightarrow> int \<Rightarrow> int" where
  "daysInMonth y m =
     (if m = 2 then (if isLeapYear y then 29 else 28)
      else if m = 4 \<or> m = 6 \<or> m = 9 \<or> m = 11 then 30 else 31)"

text \<open>Day number (days since the epoch) of a calendar date, and back.\<close>

definition daysFromCivil :: "int \<Rightarrow> int \<Rightarrow> int \<Rightarrow> int" where
  "daysFromCivil y m d =
     (let y' = (if m \<le> 2 then y - 1 else y);
          era = y' div 400;
          yoe = y' - era * 400;
          doy = (153 * (if m > 2 then m - 3 else m + 9) + 2) div 5 + d - 1;
          doe = yoe * 365 + yoe div 4 - yoe div 100 + doy
      in era * 146097 + doe - 719468)"

definition civilFromDays :: "int \<Rightarrow> int \<times> int \<times> int" where
  "civilFromDays z =
     (let z' = z + 719468;
          era = z' div 146097;
          doe = z' - era * 146097;
          yoe = (doe - doe div 1460 + doe div 36524 - doe div 146096) div 365;
          doy = doe - (365 * yoe + yoe div 4 - yoe div 100);
          mp = (5 * doy + 2) div 153;
          d = doy - (153 * mp + 2) div 5 + 1;
          m = (if mp < 10 then mp + 3 else mp - 9);
          y = yoe + era * 400
      in (if m \<le> 2 then y + 1 else y, m, d))"

definition digitVal :: "char \<Rightarrow> int" where
  "digitVal c = int (code c) - 48"

text \<open>\<open>number s\<close>: the value of a non-empty string of decimal digits.\<close>

definition number :: "string \<Rightarrow> int option" where
  "number s =
     (if s \<noteq> [] \<and> list_all isDigit s
      then Some (foldl (\<lambda>acc c. 10 * acc + digitVal c) 0 s) else None)"

definition parseDatePart :: "string \<Rightarrow> (int \<times> int \<times> int) option" where
  "parseDatePart s =
     (if length s = 4 then
        (case number s of Some y \<Rightarrow> Some (y, 1, 1) | None \<Rightarrow> None)
      else if length s = 7 \<and> s ! 4 = CHR ''-'' then
        (case (number (take 4 s), number (drop 5 s)) of
           (Some y, Some m) \<Rightarrow> if 1 \<le> m \<and> m \<le> 12 then Some (y, m, 1) else None
         | _ \<Rightarrow> None)
      else if length s = 10 \<and> s ! 4 = CHR ''-'' \<and> s ! 7 = CHR ''-'' then
        (case (number (take 4 s), number (take 2 (drop 5 s)), number (drop 8 s)) of
           (Some y, Some m, Some d) \<Rightarrow>
             if 1 \<le> m \<and> m \<le> 12 \<and> 1 \<le> d \<and> d \<le> daysInMonth y m then Some (y, m, d) else None
         | _ \<Rightarrow> None)
      else None)"

text \<open>Milliseconds into the day of \<open>HH:mm\<close>, \<open>HH:mm:ss\<close> or \<open>HH:mm:ss.sss\<close>.\<close>

definition parseTimePart :: "string \<Rightarrow> int option" where
  "parseTimePart s =
     (if length s = 5 \<and> s ! 2 = CHR '':'' then
        (case (number (take 2 s), number (drop 3 s)) of
           (Some h, Some mi) \<Rightarrow>
             if h \<le> 23 \<and> mi \<le> 59 then Some (h * 3600000 + mi * 60000) else None
         | _ \<Rightarrow> None)
      else if length s = 8 \<and> s ! 2 = CHR '':'' \<and> s ! 5 = CHR '':'' then
        (case (number (take 2 s), number (take 2 (drop 3 s)), number (drop 6 s)) of
           (Some h, Some mi, Some sec) \<Rightarrow>
             if h \<le> 23 \<and> mi \<le> 59 \<and> sec \<le> 59
             then Some (h * 3600000 + mi * 60000 + sec * 1000) else None
         | _ \<Rightarrow> None)
      else if length s = 12 \<and> s ! 2 = CHR '':'' \<and> s ! 5 = CHR '':'' \<and> s ! 8 = CHR ''.'' then
        (case (number (take 2 s), number (take 2 (drop 3 s)), number (take 2 (drop 6 s)),
               number (drop 9 s)) of
           (Some h, Some mi, Some sec, Some ms) \<Rightarrow>
             if h \<le> 23 \<and> mi \<le> 59 \<and> sec \<le> 59
             then Some (h * 3600000 + mi * 60000 + sec * 1000 + ms) else None
         | _ \<Rightarrow> None)
      else None)"

text \<open>The offset in milliseconds east of UTC: \<open>Z\<close>, \<open>+HH:mm\<close> or \<open>-HH:mm\<close>.\<close>

definition parseOffset :: "string \<Rightarrow> int option" where
  "parseOffset s =
     (if s = ''Z'' then Some 0
      else if length s = 6 \<and> (s ! 0 = CHR ''+'' \<or> s ! 0 = CHR ''-'') \<and> s ! 3 = CHR '':'' then
        (case (number (take 2 (drop 1 s)), number (drop 4 s)) of
           (Some h, Some mi) \<Rightarrow>
             if h \<le> 23 \<and> mi \<le> 59
             then Some ((if s ! 0 = CHR ''-'' then - 1 else 1) * (h * 3600000 + mi * 60000))
             else None
         | _ \<Rightarrow> None)
      else None)"

definition isOffsetStart :: "char \<Rightarrow> bool" where
  "isOffsetStart c = (c = CHR ''Z'' \<or> c = CHR ''+'' \<or> c = CHR ''-'')"

definition isoParse :: "string \<Rightarrow> int option" where
  "isoParse s =
     (let datePart = takeWhile (\<lambda>c. c \<noteq> CHR ''T'') s;
          rest = dropWhile (\<lambda>c. c \<noteq> CHR ''T'') s
      in case parseDatePart datePart of
           None \<Rightarrow> None
         | Some (y, m, d) \<Rightarrow>
             if rest = [] then Some (daysFromCivil y m d * msPerDay)
             else
               (let timePart = takeWhile (\<lambda>c. \<not> isOffsetStart c) (tl rest);
                    offsetPart = dropWhile (\<lambda>c. \<not> isOffsetStart c) (tl rest)
                in case (parseTimePart timePart, parseOffset offsetPart) of
                     (Some t, Some off) \<Rightarrow> Some (daysFromCivil y m d * msPerDay + t - off)
                   | _ \<Rightarrow> None))"

text \<open>TimeClip: a time value beyond 8.64e15 ms from the epoch is NaN.\<close>

definition timeClip :: "int option \<Rightarrow> int option" where
  "timeClip t =
     (case t of None \<Rightarrow> None
      | Some v \<Rightarrow> if \<bar>v\<bar> > 8640000000000000 then None else Some v)"

text \<open>The time value of \<open>new Date(s)\<close>.\<close>

definition dateParse :: "dateEngine \<Rightarrow> string \<Rightarrow> int option" where
  "dateParse engine s =
     timeClip (case isoParse s of Some t \<Rightarrow> Some t | None \<Rightarrow> engine s)"

definition digitChar :: "int \<Rightarrow> char" where
  "digitChar d = ''0123456789'' ! nat d"

definition pad2 :: "int \<Rightarrow> string" where
  "pad2 v = [digitChar (v div 10 mod 10), digitChar (v mod 10)]"

definition pad3 :: "int \<Rightarrow> string" where
  "pad3 v = digitChar (v div 100 mod 10) # pad2 v"

definition pad4 :: "int \<Rightarrow> string" where
  "pad4 v = digitChar (v div 1000 mod 10) # pad3 v"

definition pad6 :: "int \<Rightarrow> string" where
  "pad6 v = digitChar (v div 100000 mod 10) # digitChar (v div 10000 mod 10) # pad4 v"

text \<open>
  \<open>Date.prototype.toISOString\<close> of a time value: \<open>YYYY-MM-DDTHH:mm:ss.sssZ\<close> in UTC, the
  year with a sign and six digits outside 0 to 9999.
\<close>

definition toISOString :: "int \<Rightarrow> string" where
  "toISOString t =
     (let (y, m, d) = civilFromDays (t div msPerDay);
          ms = t mod msPerDay;
          year = (if 0 \<le> y \<and> y \<le> 9999 then pad4 y
                  else (if y < 0 then ''-'' else ''+'') @ pad6 \<bar>y\<bar>)
      in year @ ''-'' @ pad2 m @ ''-'' @ pad2 d @ ''T'' @ pad2 (ms div 3600000) @ '':''
         @ pad2 (ms div 60000 mod 60) @ '':'' @ pad2 (ms div 1000 mod 60) @ ''.''
         @ pad3 (ms mod 1000) @ ''Z'')"


section \<open>Documents and the store\<close>

text \<open>
  An ObjectId is kept as what \<open>toString\<close> gives: its 24 lower-case hexadecimal digits.
  On a string, \<open>Types.ObjectId.isValid\<close> holds for 24 hexadecimal digits, and
  \<open>new Types.ObjectId\<close> of such a string is the id with these digits.
\<close>

type_synonym objectId = string

definition isHex :: "char \<Rightarrow> bool" where
  "isHex c = (isDigit c \<or> inRange CHR ''a'' CHR ''f'' c \<or> inRange CHR ''A'' CHR ''F'' c)"

definition ObjectId_isValid :: "string \<Rightarrow> bool" where
  "ObjectId_isValid s = (length s = 24 \<and> list_all isHex s)"

definition ObjectId_new :: "string \<Rightarrow> objectId" where
  "ObjectId_new s = toLowerCase s"

text \<open>\<open>IEvent\<close> and \<open>IBooking\<close> extend \<open>Document\<close>; \<open>timestamps: true\<close> adds the two dates.\<close>

record document =
  doc_id :: objectId
  createdAt :: int
  updatedAt :: int

record event = document +
  title :: string
  slug :: string
  description :: string
  overview :: string
  image_field :: string
  venue :: string
  location :: string
  date :: string
  time :: string
  mode :: string
  audience :: string
  agenda :: "string list"
  organizer :: string
  tags :: "string list"

record booking = document +
  eventId :: objectId
  email :: string

text \<open>The two collections, in insertion order.\<close>

record store =
  events :: "event list"
  bookings :: "booking list"

text \<open>
  What one call meets outside the program: for each store operation whether it throws
  (and what), the id the driver generates for a new document, and the clock.
\<close>

record env =
  connectDB_throws :: "thrown option"
  findOne_throws :: "thrown option"
  findById_throws :: "thrown option"
  find_throws :: "thrown option"
  create_throws :: "thrown option"
  newObjectId :: objectId
  now :: int



section \<open>The Event schema (event.model.ts)\<close>

text \<open>
  \<open>replace(/[^\w\s-]/g, '')\<close> deletes every character outside the class;
  \<open>replace(/\s+/g, '-')\<close> and \<open>replace(/-+/g, '-')\<close> put one hyphen for each maximal run;
  \<open>replace(/^-+|-+$/g, '')\<close> deletes the run of hyphens at each end.
\<close>

definition isHyphen :: "char \<Rightarrow> bool" where
  "isHyphen c = (c = CHR ''-'')"

definition removeSpecial :: "string \<Rightarrow> string" where
  "removeSpecial s = filter (\<lambda>c. isWord c \<or> isSpace c \<or> isHyphen c) s"

function replaceRuns :: "(char \<Rightarrow> bool) \<Rightarrow> char \<Rightarrow> string \<Rightarrow> string" where
  "replaceRuns p r [] = []"
| "replaceRuns p r (c # cs) =
     (if p c then r # replaceRuns p r (dropWhile p cs) else c # replaceRuns p r cs)"
  by pat_completeness auto
termination
  by (relation "measure (\<lambda>(p, r, s). length s)")
     (auto simp: less_Suc_eq_le length_dropWhile_le)

definition trimHyphens :: "string \<Rightarrow> string" where
  "trimHyphens s = rev (dropWhile isHyphen (rev (dropWhile isHyphen s)))"

definition generateSlug :: "string \<Rightarrow> string" where
  "generateSlug t =
     trimHyphens
       (replaceRuns isHyphen CHR ''-''
         (replaceRuns isSpace CHR ''-''
           (removeSpecial (trim (toLowerCase t)))))"

text \<open>The schema's setters on \<open>slug\<close>: \<open>lowercase: true, trim: true\<close>.\<close>

definition slugSetter :: "string \<Rightarrow> string" where
  "slugSetter v = trim (toLowerCase v)"

text \<open>
  The queries on the Event model. \<open>findOne({slug})\<close> returns the first document that
  matches; Mongoose casts the filter's value with the path's setters before it queries.
\<close>

definition Event_findOne :: "store \<Rightarrow> string \<Rightarrow> event option" where
  "Event_findOne db s = find (\<lambda>e. slug e = slugSetter s) (events db)"

definition Event_findById :: "store \<Rightarrow> objectId \<Rightarrow> event option" where
  "Event_findById db i = find (\<lambda>e. doc_id e = i) (events db)"

text \<open>
  The pre-save hook, block by block. \<open>isModified\<close> is the document's
  \<open>this.isModified\<close>; the hook throws an \<open>Error\<close> or leaves the document to be saved.
\<close>

definition slugStep :: "(string \<Rightarrow> bool) \<Rightarrow> event \<Rightarrow> event" where
  "slugStep isModified doc =
     (if isModified ''title'' then doc\<lparr>slug := slugSetter (generateSlug (title doc))\<rparr>
      else doc)"

definition dateStep :: "dateEngine \<Rightarrow> (string \<Rightarrow> bool) \<Rightarrow> event \<Rightarrow> thrown + event" where
  "dateStep engine isModified doc =
     (if isModified ''date'' then
        (case dateParse engine (date doc) of
           None \<Rightarrow> Inl (Error ''Invalid date format. Use a valid date string.'')
         | Some t \<Rightarrow> Inr (doc\<lparr>date := takeWhile (\<lambda>c. c \<noteq> CHR ''T'') (toISOString t)\<rparr>))
      else Inr doc)"

definition timeStep :: "(string \<Rightarrow> bool) \<Rightarrow> event \<Rightarrow> thrown + event" where
  "timeStep isModified doc =
     (if isModified ''time'' \<and> \<not> test timeRegex (time doc)
      then Inl (Error ''Invalid time format. Use HH:MM format (e.g., 14:30).'')
      else Inr doc)"

definition listsStep :: "event \<Rightarrow> thrown + event" where
  "listsStep doc =
     (if agenda doc = [] then Inl (Error ''Agenda cannot be empty'')
      else if tags doc = [] then Inl (Error ''Tags cannot be empty'')
      else Inr doc)"

definition eventSchema_preSave ::
  "dateEngine \<Rightarrow> (string \<Rightarrow> bool) \<Rightarrow> event \<Rightarrow> thrown + event" where
  "eventSchema_preSave engine isModified doc =
     (case dateStep engine isModified (slugStep isModified doc) of
        Inl e \<Rightarrow> Inl e
      | Inr d \<Rightarrow>
          (case timeStep isModified d of
             Inl e \<Rightarrow> Inl e
           | Inr d' \<Rightarrow> listsStep d'))"


section \<open>The Booking schema (booking.model.ts)\<close>

text \<open>The setters on \<open>email\<close>: \<open>trim: true, lowercase: true\<close>.\<close>

definition emailSetter :: "string \<Rightarrow> string" where
  "emailSetter v = trim (toLowerCase v)"

text \<open>\<open>Booking.findOne({eventId, email})\<close>, the filter's email cast with the setters.\<close>

definition Booking_findOne :: "store \<Rightarrow> objectId \<Rightarrow> string \<Rightarrow> booking option" where
  "Booking_findOne db i em =
     find (\<lambda>b. eventId b = i \<and> email b = emailSetter em) (bookings db)"

text \<open>Validation of the paths: \<open>email\<close> is required and must pass the validator.\<close>

definition bookingSchema_validate :: "booking \<Rightarrow> thrown + booking" where
  "bookingSchema_validate doc =
     (if email doc = [] then Inl (Error ''Booking validation failed: email: Email is required'')
      else if \<not> test emailRegex (email doc)
      then Inl (Error ''Booking validation failed: email: Please provide a valid email address'')
      else Inr doc)"

text \<open>The pre-save hook: the referenced event must exist.\<close>

definition bookingSchema_preSave ::
  "env \<Rightarrow> store \<Rightarrow> bool \<Rightarrow> (string \<Rightarrow> bool) \<Rightarrow> booking \<Rightarrow> thrown + booking" where
  "bookingSchema_preSave ev db isNew isModified doc =
     (if isNew \<or> isModified ''eventId'' then
        (case findById_throws ev of
           Some t \<Rightarrow> Inl t
         | None \<Rightarrow>
             (case Event_findById db (eventId doc) of
                None \<Rightarrow> Inl (Error (''Event with ID '' @ eventId doc @ '' does not exist''))
              | Some e \<Rightarrow> Inr doc))
      else Inr doc)"

text \<open>
  The insert, under the unique index on (eventId, email): the store refuses a second
  document with the same pair by a duplicate-key error.
\<close>

definition duplicateKeyError :: thrown where
  "duplicateKeyError =
     Error ''E11000 duplicate key error collection: bookings index: eventId_1_email_1 dup key''"

definition insertBooking :: "env \<Rightarrow> store \<Rightarrow> booking \<Rightarrow> thrown + store" where
  "insertBooking ev db doc =
     (case create_throws ev of
        Some t \<Rightarrow> Inl t
      | None \<Rightarrow>
          if list_ex (\<lambda>b. eventId b = eventId doc \<and> email b = email doc) (bookings db)
          then Inl duplicateKeyError
          else Inr (db\<lparr>bookings := bookings db @ [doc]\<rparr>))"

text \<open>\<open>Booking.create({eventId, email})\<close>: a new document, validated, hooked, inserted.\<close>

definition noneModified :: "string \<Rightarrow> bool" where
  "noneModified p = False"

definition Booking_create :: "env \<Rightarrow> store \<Rightarrow> objectId \<Rightarrow> string \<Rightarrow> thrown + (booking \<times> store)" where
  "Booking_create ev db i em =
     (let doc = \<lparr>doc_id = newObjectId ev, createdAt = now ev, updatedAt = now ev,
                 eventId = i, email = emailSetter em\<rparr>
      in case bookingSchema_validate doc of
           Inl t \<Rightarrow> Inl t
         | Inr d \<Rightarrow>
             (case bookingSchema_preSave ev db True noneModified d of
                Inl t \<Rightarrow> Inl t
              | Inr d' \<Rightarrow>
                  (case insertBooking ev db d' of
                     Inl t \<Rightarrow> Inl t
                   | Inr db' \<Rightarrow> Inr (d', db'))))"


section \<open>GET /api/events/[slug] (route.ts)\<close>

record nextResponse =
  status :: nat
  body_message :: string
  body_event :: "event option"
  body_error :: "string option"

definition json :: "string \<Rightarrow> nat \<Rightarrow> nextResponse" where
  "json m st = \<lparr>status = st, body_message = m, body_event = None, body_error = None\<rparr>"

definition GET_try :: "env \<Rightarrow> store \<Rightarrow> string option \<Rightarrow> thrown + nextResponse" where
  "GET_try ev db slugParam =
     (case slugParam of
        None \<Rightarrow> Inr (json ''Slug parameter is required'' 400)
      | Some s \<Rightarrow>
          if s = [] then Inr (json ''Slug parameter is required'' 400)
          else if \<not> test slugRegex s then
            Inr (json ''Invalid slug format. Slug must contain only lowercase letters, numbers, and hyphens'' 400)
          else
            (case connectDB_throws ev of
               Some t \<Rightarrow> Inl t
             | None \<Rightarrow>
                 (case findOne_throws ev of
                    Some t \<Rightarrow> Inl t
                  | None \<Rightarrow>
                      (case Event_findOne db s of
                         None \<Rightarrow>
                           Inr (json (''Event with slug '' @ [CHR 0x27] @ s @ [CHR 0x27] @ '' not found'') 404)
                       | Some e \<Rightarrow>
                           Inr \<lparr>status = 200, body_message = ''Event fetched successfully'',
                                body_event = Some e, body_error = None\<rparr>))))"

definition GET_catch :: "thrown \<Rightarrow> nextResponse" where
  "GET_catch t =
     (case t of
        Error m \<Rightarrow>
          if includesStr m ''MONGODB_URI'' then json ''Database configuration error'' 500
          else \<lparr>status = 500, body_message = ''Failed to fetch event'',
                body_event = None, body_error = Some m\<rparr>
      | NonError \<Rightarrow>
          \<lparr>status = 500, body_message = ''Failed to fetch event'',
           body_event = None, body_error = Some ''Unknown error occurred''\<rparr>)"

definition GET :: "env \<Rightarrow> store \<Rightarrow> string option \<Rightarrow> nextResponse" where
  "GET ev db slugParam =
     (case GET_try ev db slugParam of Inr r \<Rightarrow> r | Inl t \<Rightarrow> GET_catch t)"


section \<open>createBooking (booking.actions)\<close>

record bookingData =
  bookingId :: string
  data_eventId :: string
  data_email :: string

record bookingResponse =
  success :: bool
  message :: string
  data :: "bookingData option"
  error :: "string option"

definition rejected :: "string \<Rightarrow> bookingResponse" where
  "rejected m = \<lparr>success = False, message = m, data = None, error = None\<rparr>"

definition created :: "booking \<Rightarrow> bookingResponse" where
  "created b =
     \<lparr>success = True, message = ''Booking created successfully'',
      data = Some \<lparr>bookingId = doc_id b, data_eventId = eventId b, data_email = email b\<rparr>,
      error = None\<rparr>"

text \<open>\<^verbatim>\<open>!v || typeof v !== 'string' || v.trim() === ''\<close>; \<open>None\<close> is a value that is no string.\<close>

definition missing :: "string option \<Rightarrow> bool" where
  "missing v = (case v of None \<Rightarrow> True | Some s \<Rightarrow> s = [] \<or> trim s = [])"

definition createBooking_try ::
  "env \<Rightarrow> store \<Rightarrow> string option \<Rightarrow> string option \<Rightarrow> thrown + (bookingResponse \<times> store)" where
  "createBooking_try ev db eventIdArg emailArg =
     (if missing eventIdArg then Inr (rejected ''Event ID is required'', db)
      else if missing emailArg then Inr (rejected ''Email is required'', db)
      else if \<not> test emailRegex (the emailArg) then Inr (rejected ''Invalid email format'', db)
      else if \<not> ObjectId_isValid (the eventIdArg) then
        Inr (rejected ''Invalid event ID format'', db)
      else
        (case connectDB_throws ev of
           Some t \<Rightarrow> Inl t
         | None \<Rightarrow>
             (case findOne_throws ev of
                Some t \<Rightarrow> Inl t
              | None \<Rightarrow>
                  (case Booking_findOne db (ObjectId_new (the eventIdArg))
                          (trim (toLowerCase (the emailArg))) of
                     Some b \<Rightarrow> Inr (rejected ''You have already booked this event'', db)
                   | None \<Rightarrow>
                       (case Booking_create ev db (ObjectId_new (the eventIdArg))
                               (trim (toLowerCase (the emailArg))) of
                          Inl t \<Rightarrow> Inl t
                        | Inr (b, db') \<Rightarrow> Inr (created b, db'))))))"

definition createBooking_catch :: "thrown \<Rightarrow> bookingResponse" where
  "createBooking_catch t =
     (case t of
        Error m \<Rightarrow>
          if includesStr m ''duplicate key'' then rejected ''You have already booked this event''
          else if includesStr m ''does not exist'' then rejected ''Event not found''
          else if includesStr m ''validation failed'' then
            \<lparr>success = False, message = ''Invalid booking data'', data = None, error = Some m\<rparr>
          else
            \<lparr>success = False, message = ''Failed to create booking. Please try again.'',
             data = None, error = Some m\<rparr>
      | NonError \<Rightarrow>
          \<lparr>success = False, message = ''Failed to create booking. Please try again.'',
           data = None, error = Some ''Unknown error''\<rparr>)"

text \<open>The action returns its response; the store is returned as the call leaves it.\<close>

definition createBooking ::
  "env \<Rightarrow> store \<Rightarrow> string option \<Rightarrow> string option \<Rightarrow> bookingResponse \<times> store" where
  "createBooking ev db eventIdArg emailArg =
     (case createBooking_try ev db eventIdArg emailArg of
        Inr r \<Rightarrow> r
      | Inl t \<Rightarrow> (createBooking_catch t, db))"


section \<open>getSimilarEventsBySlug (event actions)\<close>

text \<open>
  The query \<open>find({_id: {$ne: id}, tags: {$in: ts}}).limit(n).sort({createdAt: -1})\<close>: the
  store sorts before it limits, whatever the order of the two calls, and a limit of 0
  asks for no limit.
\<close>

definition sharesTag :: "string list \<Rightarrow> event \<Rightarrow> bool" where
  "sharesTag ts e = list_ex (\<lambda>t. t \<in> set ts) (tags e)"

definition mostRecentFirst :: "event list \<Rightarrow> event list" where
  "mostRecentFirst xs = sort_key (\<lambda>e. - createdAt e) xs"

definition storeLimit :: "nat \<Rightarrow> event list \<Rightarrow> event list" where
  "storeLimit n xs = (if n = 0 then xs else take n xs)"

definition Event_find_similar :: "store \<Rightarrow> event \<Rightarrow> nat \<Rightarrow> event list" where
  "Event_find_similar db src n =
     storeLimit n
       (mostRecentFirst
         (filter (\<lambda>e. doc_id e \<noteq> doc_id src \<and> sharesTag (tags src) e) (events db)))"

text \<open>
  The default parameter \<open>limit: number = 5\<close>; \<open>None\<close> is the argument left out. The
  limits of the model are the natural numbers.
\<close>

definition limitOrDefault :: "nat option \<Rightarrow> nat" where
  "limitOrDefault l = (case l of None \<Rightarrow> 5 | Some n \<Rightarrow> n)"

definition getSimilar_try ::
  "env \<Rightarrow> store \<Rightarrow> string option \<Rightarrow> nat option \<Rightarrow> thrown + event list" where
  "getSimilar_try ev db slugArg limitArg =
     (if missing slugArg then Inr []
      else
        (case connectDB_throws ev of
           Some t \<Rightarrow> Inl t
         | None \<Rightarrow>
             (case findOne_throws ev of
                Some t \<Rightarrow> Inl t
              | None \<Rightarrow>
                  (case Event_findOne db (the slugArg) of
                     None \<Rightarrow> Inr []
                   | Some src \<Rightarrow>
                       if tags src = [] then Inr []
                       else
                         (case find_throws ev of
                            Some t \<Rightarrow> Inl t
                          | None \<Rightarrow>
                              Inr (Event_find_similar db src (limitOrDefault limitArg)))))))"

text \<open>
  The result of the promise: \<open>Inr\<close> the array it resolves to, \<open>Inl\<close> what it would reject
  with. The \<open>catch\<close> turns every thrown value into the empty array.
\<close>

definition getSimilarEventsBySlug ::
  "env \<Rightarrow> store \<Rightarrow> string option \<Rightarrow> nat option \<Rightarrow> thrown + event list" where
  "getSimilarEventsBySlug ev db slugArg limitArg =
     (case getSimilar_try ev db slugArg limitArg of
        Inr r \<Rightarrow> Inr r
      | Inl t \<Rightarrow> Inr [])"


section \<open>Sample data\<close>

text \<open>A call during which no store operation throws, and one during which each does.\<close>

definition quietEnv :: env where
  "quietEnv =
     \<lparr>connectDB_throws = None, findOne_throws = None, findById_throws = None,
      find_throws = None, create_throws = None,
      newObjectId = ''65f0c1a2b3c4d5e6f7a8b9c1'', now = 1709632800000\<rparr>"

definition brokenEnv :: env where
  "brokenEnv =
     \<lparr>connectDB_throws = Some (Error ''connect ECONNREFUSED''),
      findOne_throws = Some (Error ''connect ECONNREFUSED''),
      findById_throws = Some (Error ''connect ECONNREFUSED''),
      find_throws = Some (Error ''connect ECONNREFUSED''),
      create_throws = Some (Error ''connect ECONNREFUSED''),
      newObjectId = ''65f0c1a2b3c4d5e6f7a8b9c1'', now = 1709632800000\<rparr>"

definition emptyStore :: store where
  "emptyStore = \<lparr>events = [], bookings = []\<rparr>"

definition myEvent :: event where
  "myEvent =
     \<lparr>doc_id = ''64b0c1a2b3c4d5e6f7a8b9c0'', createdAt = 1700000000000,
      updatedAt = 1700000000000,
      title = ''My Event'', slug = ''my-event'', description = ''A meetup'',
      overview = ''Talks'', image_field = ''/images/e.png'', venue = ''Hall 1'',
      location = ''Pune'', date = ''2024-03-05'', time = ''14:30'', mode = ''offline'',
      audience = ''Developers'', agenda = [''Doors open''], organizer = ''DevEvents'',
      tags = [''ai'', ''infra'']\<rparr>"

definition oneEventStore :: store where
  "oneEventStore = \<lparr>events = [myEvent], bookings = []\<rparr>"

text \<open>A document being created: every path that is set counts as modified.\<close>

definition newDocument :: "string \<Rightarrow> bool" where
  "newDocument p = True"

text \<open>Two later events that share the tag \<open>ai\<close> with \<open>myEvent\<close>, and one that shares none.\<close>

definition aiSummit :: event where
  "aiSummit =
     myEvent\<lparr>doc_id := ''64b0c1a2b3c4d5e6f7a8b9c1'', createdAt := 1700000001000,
       title := ''AI Summit'', slug := ''ai-summit'', tags := [''ai'']\<rparr>"

definition aiNight :: event where
  "aiNight =
     myEvent\<lparr>doc_id := ''64b0c1a2b3c4d5e6f7a8b9c2'', createdAt := 1700000002000,
       title := ''AI Night'', slug := ''ai-night'', tags := [''web'', ''ai'']\<rparr>"

definition rustDay :: event where
  "rustDay =
     myEvent\<lparr>doc_id := ''64b0c1a2b3c4d5e6f7a8b9c3'', createdAt := 1700000003000,
       title := ''Rust Day'', slug := ''rust-day'', tags := [''rust'']\<rparr>"

definition bareEvent :: event where
  "bareEvent =
     myEvent\<lparr>doc_id := ''64b0c1a2b3c4d5e6f7a8b9c4'', title := ''Bare'', slug := ''bare'',
       tags := []\<rparr>"

definition fourEventStore :: store where
  "fourEventStore = \<lparr>events = [myEvent, aiSummit, rustDay, aiNight], bookings = []\<rparr>"

definition bareStore :: store where
  "bareStore = \<lparr>events = [bareEvent, aiSummit], bookings = []\<rparr>"

text \<open>A booking of \<open>myEvent\<close>, the store that holds it, and a later call.\<close>

definition annBooking :: booking where
  "annBooking =
     \<lparr>doc_id = ''65f0c1a2b3c4d5e6f7a8b9c1'', createdAt = 1709632800000,
      updatedAt = 1709632800000, eventId = ''64b0c1a2b3c4d5e6f7a8b9c0'',
      email = ''ann@b.co''\<rparr>"

definition annStore :: store where
  "annStore = \<lparr>events = [myEvent], bookings = [annBooking]\<rparr>"

definition laterEnv :: env where
  "laterEnv = quietEnv\<lparr>newObjectId := ''65f0c1a2b3c4d5e6f7a8b9c2'', now := 1709632900000\<rparr>"

definition raceEnv :: env where
  "raceEnv = quietEnv\<lparr>create_throws := Some duplicateKeyError\<rparr>"

text \<open>A document of which one path is modified, and an engine with no parser of its own.\<close>

definition onlyModified :: "string \<Rightarrow> string \<Rightarrow> bool" where
  "onlyModified path p = (p = path)"

definition noEngine :: dateEngine where
  "noEngine s = None"


section \<open>Notions used in the statements\<close>

text \<open>
  The matching rule as the specification words it: the events other than the source
  whose tags intersect the source's, most recently created first, truncated to the
  limit.
\<close>

definition spec_getSimilar :: "store \<Rightarrow> event \<Rightarrow> nat \<Rightarrow> event list" where
  "spec_getSimilar db src n =
     take n
       (sort_key (\<lambda>e. - createdAt e)
         (filter (\<lambda>e. doc_id e \<noteq> doc_id src \<and> set (tags e) \<inter> set (tags src) \<noteq> {})
           (events db)))"

text \<open>
  Every stored booking references a stored event: the state of the store that
  createBooking keeps (see \<open>createBooking_keeps_refIntegrity\<close>).
\<close>

definition refIntegrity :: "store \<Rightarrow> bool" where
  "refIntegrity db = list_all (\<lambda>b. Event_findById db (eventId b) \<noteq> None) (bookings db)"

text \<open>A call during which no store operation throws.\<close>

definition quiet :: "env \<Rightarrow> bool" where
  "quiet ev =
     (connectDB_throws ev = None \<and> findOne_throws ev = None \<and> findById_throws ev = None \<and>
      find_throws ev = None \<and> create_throws ev = None)"

text \<open>
  The two-digit 24-hour \<open>HH:MM\<close> of the specification: hours 00 to 23, a colon,
  minutes 00 to 59.
\<close>

fun spec_HHMM :: "string \<Rightarrow> bool" where
  "spec_HHMM [h1, h2, c, m1, m2] =
     (((h1 = CHR ''0'' \<or> h1 = CHR ''1'') \<and> isDigit h2 \<or>
       h1 = CHR ''2'' \<and> inRange CHR ''0'' CHR ''3'' h2) \<and>
      c = CHR '':'' \<and> inRange CHR ''0'' CHR ''5'' m1 \<and> isDigit m2)"
| "spec_HHMM t = False"

text \<open>The same with the hour's leading digit optional: \<open>H:MM\<close> or \<open>HH:MM\<close>.\<close>

fun hourMinute :: "string \<Rightarrow> bool" where
  "hourMinute [h, c, m1, m2] =
     (isDigit h \<and> c = CHR '':'' \<and> inRange CHR ''0'' CHR ''5'' m1 \<and> isDigit m2)"
| "hourMinute t = spec_HHMM t"

text \<open>No two hyphens in a row.\<close>

fun noDoubleHyphen :: "string \<Rightarrow> bool" where
  "noDoubleHyphen (a # b # s) = (\<not> (isHyphen a \<and> isHyphen b) \<and> noDoubleHyphen (b # s))"
| "noDoubleHyphen s = True"

text \<open>
  The ISO date-only part of a time value: the UTC calendar date as \<open>YYYY-MM-DD\<close> (the
  year with a sign and six digits outside 0 to 9999).
\<close>

definition isoDateOnly :: "int \<Rightarrow> string" where
  "isoDateOnly t =
     (let (y, m, d) = civilFromDays (t div msPerDay);
          year = (if 0 \<le> y \<and> y \<le> 9999 then pad4 y
                  else (if y < 0 then ''-'' else ''+'') @ pad6 \<bar>y\<bar>)
      in year @ ''-'' @ pad2 m @ ''-'' @ pad2 d)"


section \<open>Unfolding sets for evaluation\<close>

lemmas char_eval =
  code_def inRange_def isSpace_def isDigit_def isLower_def isUpper_def isWord_def

lemmas regex_eval =
  test_def Plus1_def Opt_def Lit_def notSpaceAt_def lowerAlnum_def char_eval

lemmas sample_defs = quietEnv_def brokenEnv_def emptyStore_def myEvent_def oneEventStore_def
  aiSummit_def aiNight_def rustDay_def bareEvent_def fourEventStore_def bareStore_def
  annBooking_def annStore_def laterEnv_def raceEnv_def onlyModified_def noEngine_def
  newDocument_def

lemmas lower_eval = toLowerCase_def toLowerChar_def char_of_def bit_Suc_0_iff


section \<open>Facts about strings and patterns\<close>

subsection \<open>Strings\<close>

lemma code_less_256: "code c < 256"
  by (simp add: code_def)

lemma code_inject: "code a = code b \<longleftrightarrow> a = b"
  by (simp add: code_def)

lemma startsWith_iff: "startsWith s t \<longleftrightarrow> (\<exists>r. s = t @ r)"
  by (induction s t rule: startsWith.induct) auto

lemma includes_iff: "includesStr s t \<longleftrightarrow> (\<exists>a b. s = a @ t @ b)"
proof (induction s)
  case Nil
  then show ?case by auto
next
  case (Cons c cs)
  show ?case
  proof
    assume "includesStr (c # cs) t"
    then consider "startsWith (c # cs) t" | "includesStr cs t" by auto
    then show "\<exists>a b. c # cs = a @ t @ b"
    proof cases
      case 1
      then obtain r where "c # cs = t @ r" by (auto simp: startsWith_iff)
      then have "c # cs = [] @ t @ r" by simp
      then show ?thesis by blast
    next
      case 2
      then obtain a b where "cs = a @ t @ b" using Cons.IH by blast
      then have "c # cs = (c # a) @ t @ b" by simp
      then show ?thesis by blast
    qed
  next
    assume "\<exists>a b. c # cs = a @ t @ b"
    then obtain a b where ab: "c # cs = a @ t @ b" by blast
    show "includesStr (c # cs) t"
    proof (cases a)
      case Nil
      with ab have "startsWith (c # cs) t" by (auto simp: startsWith_iff)
      then show ?thesis by simp
    next
      case (Cons x a')
      with ab have "cs = a' @ t @ b" by simp
      then have "includesStr cs t" using Cons.IH by blast
      then show ?thesis by simp
    qed
  qed
qed

lemma includes_set: "includesStr s t \<Longrightarrow> set t \<subseteq> set s"
  by (auto simp: includes_iff)


subsection \<open>The matcher decides the language\<close>

lemma nullable_lang: "nullable r \<longleftrightarrow> [] \<in> lang r"
  by (induction r) (auto intro: Kleene_nil)

lemma Kleene_Cons:
  "c # w \<in> Kleene A \<longleftrightarrow> (\<exists>u v. w = u @ v \<and> c # u \<in> A \<and> v \<in> Kleene A)"
proof
  assume "c # w \<in> Kleene A"
  then show "\<exists>u v. w = u @ v \<and> c # u \<in> A \<and> v \<in> Kleene A"
  proof (induction "c # w" rule: Kleene.induct)
    case (Kleene_app u v)
    show ?case
    proof (cases u)
      case Nil
      with Kleene_app show ?thesis by simp
    next
      case (Cons a u')
      with Kleene_app have "w = u' @ v" "c # u' \<in> A" "v \<in> Kleene A" by auto
      then show ?thesis by blast
    qed
  qed
next
  assume "\<exists>u v. w = u @ v \<and> c # u \<in> A \<and> v \<in> Kleene A"
  then obtain u v where "w = u @ v" "c # u \<in> A" "v \<in> Kleene A" by blast
  then have "(c # u) @ v \<in> Kleene A" by (intro Kleene_app)
  with \<open>w = u @ v\<close> show "c # w \<in> Kleene A" by simp
qed

lemma deriv_lang: "w \<in> lang (deriv c r) \<longleftrightarrow> c # w \<in> lang r"
proof (induction r arbitrary: w)
  case (Seq r s)
  have split: "c # w \<in> lang (Seq r s) \<longleftrightarrow>
      (\<exists>u v. w = u @ v \<and> c # u \<in> lang r \<and> v \<in> lang s) \<or> ([] \<in> lang r \<and> c # w \<in> lang s)"
    by (auto simp: Cons_eq_append_conv)
  show ?case
    by (simp only: split) (auto simp: Seq nullable_lang)
next
  case (Star r)
  then show ?case by (auto simp: Kleene_Cons)
qed auto

lemma matches_lang: "matches r w \<longleftrightarrow> w \<in> lang r"
  by (induction w arbitrary: r) (auto simp: nullable_lang deriv_lang)

lemma Kleene_Cls: "w \<in> Kleene {[c] | c. p c} \<longleftrightarrow> list_all p w"
proof (induction w)
  case Nil
  show ?case by (simp add: Kleene_nil)
next
  case (Cons a w)
  show ?case by (auto simp: Kleene_Cons Cons)
qed

lemma lang_Plus1_Cls: "w \<in> lang (Plus1 (Cls p)) \<longleftrightarrow> w \<noteq> [] \<and> list_all p w"
proof
  assume "w \<in> lang (Plus1 (Cls p))"
  then obtain u v where "w = u @ v" "u \<in> lang (Cls p)" "v \<in> Kleene (lang (Cls p))"
    by (auto simp: Plus1_def)
  then show "w \<noteq> [] \<and> list_all p w"
    by (auto simp: Kleene_Cls)
next
  assume a: "w \<noteq> [] \<and> list_all p w"
  then obtain c v where w: "w = c # v" by (cases w) auto
  with a have "[c] \<in> lang (Cls p)" "v \<in> Kleene (lang (Cls p))"
    by (auto simp: Kleene_Cls)
  then have "[c] @ v \<in> lang (Seq (Cls p) (Star (Cls p)))"
    unfolding lang.simps by blast
  with w show "w \<in> lang (Plus1 (Cls p))" by (simp add: Plus1_def)
qed


subsection \<open>Lower case and trimming\<close>

lemma code_char_of: "n < 256 \<Longrightarrow> code (char_of n) = n"
  by (simp add: code_def)

lemma code_toLowerChar:
  "code (toLowerChar c) =
     (if isUpper c \<or> (192 \<le> code c \<and> code c \<le> 222 \<and> code c \<noteq> 215)
      then code c + 32 else code c)"
  by (auto simp: toLowerChar_def isUpper_def inRange_def code_char_of)
     (simp_all add: code_def)

lemma isSpace_toLowerChar: "isSpace (toLowerChar c) \<longleftrightarrow> isSpace c"
  by (auto simp: isSpace_def code_toLowerChar isUpper_def inRange_def)
     (simp_all add: code_def)

lemma char_eq_code: "c = d \<longleftrightarrow> code c = code d"
  by (simp add: code_inject)

lemma toLowerChar_eq_at: "toLowerChar c = CHR ''@'' \<longleftrightarrow> c = CHR ''@''"
  unfolding char_eq_code [of _ "CHR ''@''"] code_toLowerChar
  by (auto simp: isUpper_def inRange_def) (simp_all add: code_def)

lemma toLowerChar_dot: "toLowerChar CHR ''.'' = CHR ''.''"
  by (simp add: toLowerChar_def char_eval)

lemma toLowerChar_at: "toLowerChar CHR ''@'' = CHR ''@''"
  by (simp add: toLowerChar_def char_eval)

lemma notSpaceAt_toLowerChar: "notSpaceAt (toLowerChar c) \<longleftrightarrow> notSpaceAt c"
  by (simp add: notSpaceAt_def isSpace_toLowerChar toLowerChar_eq_at)

lemma toLowerChar_idem: "toLowerChar (toLowerChar c) = toLowerChar c"
proof -
  have "\<not> (isUpper (toLowerChar c) \<or>
            (192 \<le> code (toLowerChar c) \<and> code (toLowerChar c) \<le> 222 \<and> code (toLowerChar c) \<noteq> 215))"
    unfolding code_toLowerChar isUpper_def inRange_def
    by (auto simp: code_def)
  then show ?thesis
    by (subst toLowerChar_def) auto
qed

lemma toLowerCase_idem: "toLowerCase (toLowerCase s) = toLowerCase s"
  by (simp add: toLowerCase_def toLowerChar_idem)

lemma trim_no_space: "list_all (\<lambda>c. \<not> isSpace c) s \<Longrightarrow> trim s = s"
proof -
  assume a: "list_all (\<lambda>c. \<not> isSpace c) s"
  then have "dropWhile isSpace s = s"
    by (cases s) auto
  moreover from a have "dropWhile isSpace (rev s) = rev s"
    by (cases "rev s") (auto simp: list_all_iff dest: arg_cong [where f = set])
  ultimately show ?thesis by (simp add: trim_def)
qed


subsection \<open>The email pattern and the checks on the input\<close>

lemma in_lang_Seq: "w \<in> lang (Seq r s) \<longleftrightarrow> (\<exists>u v. w = u @ v \<and> u \<in> lang r \<and> v \<in> lang s)"
  by auto

lemma in_lang_Lit: "w \<in> lang (Lit a) \<longleftrightarrow> w = [a]"
  by (auto simp: Lit_def)

lemma in_lang_Cls: "w \<in> lang (Cls p) \<longleftrightarrow> (\<exists>c. w = [c] \<and> p c)"
  by auto

lemma emailRegex_iff:
  "test emailRegex a \<longleftrightarrow>
     (\<exists>l d t. a = l @ ''@'' @ d @ ''.'' @ t \<and> l \<noteq> [] \<and> d \<noteq> [] \<and> t \<noteq> [] \<and>
        list_all notSpaceAt l \<and> list_all notSpaceAt d \<and> list_all notSpaceAt t)"
  unfolding test_def matches_lang emailRegex_def
  by (simp only: in_lang_Seq in_lang_Lit lang_Plus1_Cls) blast

lemma emailRegex_no_space:
  assumes "test emailRegex a"
  shows "list_all (\<lambda>c. \<not> isSpace c) a" and "a \<noteq> []"
proof -
  from assms obtain l d t where a: "a = l @ ''@'' @ d @ ''.'' @ t" "l \<noteq> []"
    and n: "list_all notSpaceAt l" "list_all notSpaceAt d" "list_all notSpaceAt t"
    by (auto simp: emailRegex_iff)
  have "\<not> isSpace CHR ''@''" "\<not> isSpace CHR ''.''"
    by (simp_all add: char_eval)
  with a n show "list_all (\<lambda>c. \<not> isSpace c) a"
    by (auto simp: list_all_iff notSpaceAt_def)
  from a show "a \<noteq> []" by simp
qed

lemma emailRegex_toLowerCase:
  assumes "test emailRegex a"
  shows "test emailRegex (toLowerCase a)"
proof -
  from assms obtain l d t where a: "a = l @ ''@'' @ d @ ''.'' @ t" "l \<noteq> []" "d \<noteq> []" "t \<noteq> []"
    and n: "list_all notSpaceAt l" "list_all notSpaceAt d" "list_all notSpaceAt t"
    by (auto simp: emailRegex_iff)
  have "toLowerCase a = toLowerCase l @ ''@'' @ toLowerCase d @ ''.'' @ toLowerCase t"
    by (simp add: a toLowerCase_def toLowerChar_at toLowerChar_dot)
  moreover have "list_all notSpaceAt (toLowerCase l)" "list_all notSpaceAt (toLowerCase d)"
    "list_all notSpaceAt (toLowerCase t)"
    using n by (simp_all add: toLowerCase_def list_all_iff notSpaceAt_toLowerChar)
  moreover have "toLowerCase l \<noteq> []" "toLowerCase d \<noteq> []" "toLowerCase t \<noteq> []"
    using a by (simp_all add: toLowerCase_def)
  ultimately show ?thesis
    unfolding emailRegex_iff by blast
qed

lemma toLowerCase_no_space:
  "list_all (\<lambda>c. \<not> isSpace c) a \<Longrightarrow> list_all (\<lambda>c. \<not> isSpace c) (toLowerCase a)"
  by (simp add: toLowerCase_def list_all_iff isSpace_toLowerChar)

text \<open>For an address that passes the pattern, trimming changes nothing.\<close>

lemma normalize_valid_email:
  assumes "test emailRegex a"
  shows "trim (toLowerCase a) = toLowerCase a"
    and "emailSetter (toLowerCase a) = toLowerCase a"
    and "\<not> missing (Some a)"
proof -
  have ns: "list_all (\<lambda>c. \<not> isSpace c) a" and ne: "a \<noteq> []"
    using emailRegex_no_space [OF assms] by simp_all
  show t: "trim (toLowerCase a) = toLowerCase a"
    using ns by (simp add: trim_no_space toLowerCase_no_space)
  show "emailSetter (toLowerCase a) = toLowerCase a"
    by (simp add: emailSetter_def toLowerCase_idem t)
  have "trim a = a" using ns by (simp add: trim_no_space)
  with ne show "\<not> missing (Some a)" by (simp add: missing_def)
qed

lemma isHex_not_space: "isHex c \<Longrightarrow> \<not> isSpace c"
  by (auto simp: isHex_def char_eval)

lemma ObjectId_isValid_not_missing: "ObjectId_isValid i \<Longrightarrow> \<not> missing (Some i)"
proof -
  assume v: "ObjectId_isValid i"
  then have "list_all (\<lambda>c. \<not> isSpace c) i"
    by (auto simp: ObjectId_isValid_def list_all_iff isHex_not_space)
  then have "trim i = i" by (rule trim_no_space)
  moreover from v have "i \<noteq> []" by (auto simp: ObjectId_isValid_def)
  ultimately show ?thesis by (simp add: missing_def)
qed


subsection \<open>The slug pattern and the setters\<close>

lemma Kleene_list_all:
  assumes "w \<in> Kleene A" and "\<And>u. u \<in> A \<Longrightarrow> list_all P u"
  shows "list_all P w"
  using assms by (induction rule: Kleene.induct) auto

lemma slugRegex_chars:
  assumes "test slugRegex s"
  shows "list_all (\<lambda>c. lowerAlnum c \<or> c = CHR ''-'') s"
proof -
  from assms obtain u v where s: "s = u @ v" and u: "u \<in> lang (Plus1 (Cls lowerAlnum))"
    and v: "v \<in> Kleene (lang (Seq (Lit CHR ''-'') (Plus1 (Cls lowerAlnum))))"
    unfolding test_def matches_lang slugRegex_def by auto
  have "list_all (\<lambda>c. lowerAlnum c \<or> c = CHR ''-'') u"
    using u by (auto simp: lang_Plus1_Cls list_all_iff)
  moreover have "list_all (\<lambda>c. lowerAlnum c \<or> c = CHR ''-'') v"
  proof (rule Kleene_list_all [OF v])
    fix w assume "w \<in> lang (Seq (Lit CHR ''-'') (Plus1 (Cls lowerAlnum)))"
    then obtain x where "w = CHR ''-'' # x" "list_all lowerAlnum x"
      by (auto simp: in_lang_Seq in_lang_Lit lang_Plus1_Cls)
    then show "list_all (\<lambda>c. lowerAlnum c \<or> c = CHR ''-'') w"
      by (auto simp: list_all_iff)
  qed
  ultimately show ?thesis by (simp add: s)
qed

lemma slug_char_fixed:
  assumes "lowerAlnum c \<or> c = CHR ''-''"
  shows "toLowerChar c = c" and "\<not> isSpace c"
proof -
  have "code c = 45 \<or> (48 \<le> code c \<and> code c \<le> 57) \<or> (97 \<le> code c \<and> code c \<le> 122)"
    using assms by (auto simp: lowerAlnum_def isLower_def isDigit_def inRange_def code_def)
  then show "toLowerChar c = c" "\<not> isSpace c"
    by (auto simp: toLowerChar_def isUpper_def inRange_def isSpace_def) (simp_all add: code_def)
qed

lemma slugSetter_slug:
  assumes "test slugRegex s"
  shows "slugSetter s = s"
proof -
  from slugRegex_chars [OF assms] have c: "\<forall>c\<in>set s. lowerAlnum c \<or> c = CHR ''-''"
    by (simp add: list_all_iff)
  then have "toLowerCase s = s"
    by (simp add: toLowerCase_def slug_char_fixed(1) map_idI)
  moreover from c have "list_all (\<lambda>c. \<not> isSpace c) s"
    by (auto simp: list_all_iff slug_char_fixed(2))
  ultimately show ?thesis
    by (simp add: slugSetter_def trim_no_space)
qed

lemma trim_toLowerCase: "trim (toLowerCase s) = toLowerCase (trim s)"
proof -
  have c: "isSpace \<circ> toLowerChar = isSpace"
    by (auto simp: isSpace_toLowerChar)
  have d: "dropWhile isSpace (map toLowerChar xs) = map toLowerChar (dropWhile isSpace xs)"
    for xs by (simp add: dropWhile_map c)
  show ?thesis
    by (simp add: trim_def toLowerCase_def rev_map d)
qed


subsection \<open>Booking.create and the catch block\<close>

lemma toLowerChar_hex_not_p: "isHex h \<Longrightarrow> toLowerChar h \<noteq> CHR ''p''"
  unfolding char_eq_code [of _ "CHR ''p''"] code_toLowerChar
  by (auto simp: isHex_def isDigit_def isUpper_def inRange_def) (simp_all add: code_def)

lemma hook_message_caught:
  assumes "ObjectId_isValid i"
  shows "createBooking_catch (Error (''Event with ID '' @ ObjectId_new i @ '' does not exist'')) =
           rejected ''Event not found''"
proof -
  let ?m = "''Event with ID '' @ ObjectId_new i @ '' does not exist''"
  have "CHR ''p'' \<notin> set (ObjectId_new i)"
  proof
    assume "CHR ''p'' \<in> set (ObjectId_new i)"
    then obtain h where "h \<in> set i" "toLowerChar h = CHR ''p''"
      by (auto simp: ObjectId_new_def toLowerCase_def)
    moreover from assms have "\<forall>h\<in>set i. isHex h"
      by (simp add: ObjectId_isValid_def list_all_iff)
    ultimately show False
      using toLowerChar_hex_not_p by blast
  qed
  then have "CHR ''p'' \<notin> set ?m" by simp
  moreover have "CHR ''p'' \<in> set ''duplicate key''" by simp
  ultimately have "\<not> includesStr ?m ''duplicate key''"
    using includes_set [of ?m "''duplicate key''"] by blast
  moreover have "?m = (''Event with ID '' @ ObjectId_new i @ '' '') @ ''does not exist'' @ []"
    by simp
  then have "includesStr ?m ''does not exist''"
    unfolding includes_iff by blast
  ultimately show ?thesis
    by (simp add: createBooking_catch_def)
qed

lemma find_None_list_ex: "find P xs = None \<longleftrightarrow> \<not> list_ex P xs"
  by (auto simp: find_None_iff list_ex_iff)

lemma Booking_create_ok:
  assumes "test emailRegex a"
    and "findById_throws ev = None" and "create_throws ev = None"
    and "Event_findById db oid = Some e"
    and "Booking_findOne db oid (toLowerCase a) = None"
  shows "Booking_create ev db oid (toLowerCase a) =
           Inr (\<lparr>doc_id = newObjectId ev, createdAt = now ev, updatedAt = now ev,
                 eventId = oid, email = toLowerCase a\<rparr>,
                db\<lparr>bookings := bookings db @
                   [\<lparr>doc_id = newObjectId ev, createdAt = now ev, updatedAt = now ev,
                     eventId = oid, email = toLowerCase a\<rparr>]\<rparr>)"
proof -
  have v: "test emailRegex (toLowerCase a)" "toLowerCase a \<noteq> []"
    using emailRegex_toLowerCase [OF assms(1)] emailRegex_no_space(2) by auto
  have d: "\<not> list_ex (\<lambda>b. eventId b = oid \<and> email b = toLowerCase a) (bookings db)"
    using assms(5)
    by (simp add: Booking_findOne_def find_None_list_ex normalize_valid_email(2) [OF assms(1)])
  show ?thesis
    using assms(2,3,4) v d
    by (simp add: Booking_create_def normalize_valid_email(2) [OF assms(1)]
          bookingSchema_validate_def bookingSchema_preSave_def insertBooking_def Let_def)
qed

lemma Booking_create_throws:
  assumes "test emailRegex a"
    and "findById_throws ev = None" and "create_throws ev = Some t"
    and "Event_findById db oid = Some e"
  shows "Booking_create ev db oid (toLowerCase a) = Inl t"
proof -
  have v: "test emailRegex (toLowerCase a)" "toLowerCase a \<noteq> []"
    using emailRegex_toLowerCase [OF assms(1)] emailRegex_no_space(2) by auto
  show ?thesis
    using assms(2,3,4) v
    by (simp add: Booking_create_def normalize_valid_email(2) [OF assms(1)]
          bookingSchema_validate_def bookingSchema_preSave_def insertBooking_def Let_def)
qed

lemma Booking_create_no_event:
  assumes "test emailRegex a"
    and "findById_throws ev = None"
    and "Event_findById db oid = None"
  shows "Booking_create ev db oid (toLowerCase a) =
           Inl (Error (''Event with ID '' @ oid @ '' does not exist''))"
proof -
  have v: "test emailRegex (toLowerCase a)" "toLowerCase a \<noteq> []"
    using emailRegex_toLowerCase [OF assms(1)] emailRegex_no_space(2) by auto
  show ?thesis
    using assms(2,3) v
    by (simp add: Booking_create_def normalize_valid_email(2) [OF assms(1)]
          bookingSchema_validate_def bookingSchema_preSave_def Let_def)
qed

text \<open>createBooking once the four input checks have passed.\<close>

lemma createBooking_valid:
  assumes "ObjectId_isValid i" and "test emailRegex a"
  shows "createBooking_try ev db (Some i) (Some a) =
     (case connectDB_throws ev of
        Some t \<Rightarrow> Inl t
      | None \<Rightarrow>
          (case findOne_throws ev of
             Some t \<Rightarrow> Inl t
           | None \<Rightarrow>
               (case Booking_findOne db (ObjectId_new i) (toLowerCase a) of
                  Some b \<Rightarrow> Inr (rejected ''You have already booked this event'', db)
                | None \<Rightarrow>
                    (case Booking_create ev db (ObjectId_new i) (toLowerCase a) of
                       Inl t \<Rightarrow> Inl t
                     | Inr (b, db') \<Rightarrow> Inr (created b, db')))))"
  using assms ObjectId_isValid_not_missing [OF assms(1)] normalize_valid_email [OF assms(2)]
  by (simp add: createBooking_try_def split: option.splits sum.splits)


subsection \<open>What a call of createBooking does to the store\<close>

lemma find_snoc:
  "find P (xs @ [b]) = (case find P xs of Some x \<Rightarrow> Some x | None \<Rightarrow> if P b then Some b else None)"
  by (induction xs) auto

lemma Booking_create_Inr:
  assumes "Booking_create ev db oid em = Inr (b, db')"
  shows "b = \<lparr>doc_id = newObjectId ev, createdAt = now ev, updatedAt = now ev,
              eventId = oid, email = emailSetter em\<rparr>"
    and "db' = db\<lparr>bookings := bookings db @ [b]\<rparr>"
    and "Event_findById db oid \<noteq> None"
  using assms
  by (auto simp: Booking_create_def bookingSchema_validate_def bookingSchema_preSave_def
        insertBooking_def Let_def split: if_splits option.splits sum.splits)

lemma createBooking_catch_fails: "\<not> success (createBooking_catch t)"
  by (cases t) (auto simp: createBooking_catch_def rejected_def)

text \<open>A call either fails and leaves the store as it was, or appends the booking it reports.\<close>

lemma createBooking_cases:
  "(\<not> success (fst (createBooking ev db eid em)) \<and> snd (createBooking ev db eid em) = db) \<or>
   (\<exists>i a b. eid = Some i \<and> em = Some a \<and> ObjectId_isValid i \<and> test emailRegex a \<and>
      Booking_findOne db (ObjectId_new i) (trim (toLowerCase a)) = None \<and>
      Booking_create ev db (ObjectId_new i) (trim (toLowerCase a)) =
        Inr (b, db\<lparr>bookings := bookings db @ [b]\<rparr>) \<and>
      createBooking ev db eid em = (created b, db\<lparr>bookings := bookings db @ [b]\<rparr>))"
proof (cases "createBooking_try ev db eid em")
  case (Inl t)
  then show ?thesis by (simp add: createBooking_def createBooking_catch_fails)
next
  case (Inr r)
  show ?thesis
  proof (cases "success (fst r)")
    case False
    with Inr have "snd r = db"
      by (auto simp: createBooking_try_def created_def
            split: if_splits option.splits sum.splits prod.splits)
    with False Inr show ?thesis by (simp add: createBooking_def)
  next
    case True
    with Inr obtain i a b db' where h: "eid = Some i" "em = Some a" "ObjectId_isValid i"
      "test emailRegex a"
      "Booking_findOne db (ObjectId_new i) (trim (toLowerCase a)) = None"
      "Booking_create ev db (ObjectId_new i) (trim (toLowerCase a)) = Inr (b, db')"
      "r = (created b, db')"
      by (auto simp: createBooking_try_def missing_def rejected_def
            split: if_splits option.splits sum.splits prod.splits)
    from Booking_create_Inr(2) [OF h(6)] have "db' = db\<lparr>bookings := bookings db @ [b]\<rparr>" .
    with h Inr show ?thesis by (simp add: createBooking_def)
  qed
qed

lemma Event_findById_bookings_update [simp]:
  "Event_findById (db\<lparr>bookings := bs\<rparr>) i = Event_findById db i"
  by (simp add: Event_findById_def)

lemma createBooking_keeps_refIntegrity:
  assumes "refIntegrity db"
  shows "refIntegrity (snd (createBooking ev db eid em))"
proof -
  from createBooking_cases [of ev db eid em]
  consider "snd (createBooking ev db eid em) = db"
    | i a b where "Booking_create ev db (ObjectId_new i) (trim (toLowerCase a)) =
        Inr (b, db\<lparr>bookings := bookings db @ [b]\<rparr>)"
        "createBooking ev db eid em = (created b, db\<lparr>bookings := bookings db @ [b]\<rparr>)"
    by blast
  then show ?thesis
  proof cases
    case 1
    with assms show ?thesis by simp
  next
    case 2
    from Booking_create_Inr [OF 2(1)]
    have "eventId b = ObjectId_new i" "Event_findById db (ObjectId_new i) \<noteq> None"
      by simp_all
    with assms 2(2) show ?thesis
      by (simp add: refIntegrity_def)
  qed
qed

lemma refIntegrity_no_booking:
  assumes "refIntegrity db" and "Event_findById db oid = None"
  shows "Booking_findOne db oid em = None"
proof (rule ccontr)
  assume "Booking_findOne db oid em \<noteq> None"
  then obtain b where "b \<in> set (bookings db)" "eventId b = oid"
    by (auto simp: Booking_findOne_def find_None_iff)
  with assms show False
    by (auto simp: refIntegrity_def list_all_iff)
qed


subsection \<open>Facts about the sample data\<close>

lemma spaced_email_fails:
  assumes "a \<noteq> []" and "isSpace (hd a) \<or> isSpace (last a)"
  shows "\<not> test emailRegex a"
proof
  assume "test emailRegex a"
  then have "list_all (\<lambda>c. \<not> isSpace c) a"
    by (rule emailRegex_no_space)
  moreover from assms(1) have "hd a \<in> set a" "last a \<in> set a"
    by simp_all
  ultimately show False
    using assms(2) by (auto simp: list_all_iff)
qed

lemma createBooking_same_lower_case:
  assumes "ObjectId_isValid i" and "test emailRegex a" and "test emailRegex a'"
    and "toLowerCase a = toLowerCase a'"
  shows "createBooking ev db (Some i) (Some a) = createBooking ev db (Some i) (Some a')"
  unfolding createBooking_def createBooking_valid [OF assms(1,2)]
    createBooking_valid [OF assms(1,3)] assms(4) ..

lemma sample_facts:
  "ObjectId_isValid ''64b0c1a2b3c4d5e6f7a8b9c0''"
  "ObjectId_new ''64b0c1a2b3c4d5e6f7a8b9c0'' = ''64b0c1a2b3c4d5e6f7a8b9c0''"
  "test emailRegex ''ann@b.co''" "test emailRegex ''Ann@b.co''" "test emailRegex ''bob@b.co''"
  "toLowerCase ''ann@b.co'' = ''ann@b.co''" "toLowerCase ''Ann@b.co'' = ''ann@b.co''"
  "toLowerCase ''bob@b.co'' = ''bob@b.co''"
  by (simp_all add: ObjectId_isValid_def isHex_def ObjectId_new_def emailRegex_def regex_eval
        lower_eval)

lemma sample_env_facts:
  "quiet quietEnv" "quiet laterEnv"
  "connectDB_throws laterEnv = None" "findOne_throws laterEnv = None"
  "findById_throws quietEnv = None" "create_throws quietEnv = None"
  "connectDB_throws quietEnv = None" "findOne_throws quietEnv = None"
  by (simp_all add: quiet_def sample_defs)

lemma sample_store_facts:
  "Event_findById oneEventStore ''64b0c1a2b3c4d5e6f7a8b9c0'' = Some myEvent"
  "Booking_findOne oneEventStore ''64b0c1a2b3c4d5e6f7a8b9c0'' ''ann@b.co'' = None"
  "Booking_findOne oneEventStore ''64b0c1a2b3c4d5e6f7a8b9c0'' ''bob@b.co'' = None"
  "Booking_findOne annStore ''64b0c1a2b3c4d5e6f7a8b9c0'' ''ann@b.co'' = Some annBooking"
  by (simp_all add: Event_findById_def Booking_findOne_def emailSetter_def trim_def lower_eval
        char_eval sample_defs)

lemma first_booking:
  "createBooking quietEnv oneEventStore (Some ''64b0c1a2b3c4d5e6f7a8b9c0'') (Some ''ann@b.co'') =
     (created annBooking, annStore)"
proof -
  have "Booking_create quietEnv oneEventStore ''64b0c1a2b3c4d5e6f7a8b9c0''
          (toLowerCase ''ann@b.co'') =
          Inr (\<lparr>doc_id = newObjectId quietEnv, createdAt = now quietEnv, updatedAt = now quietEnv,
                 eventId = ''64b0c1a2b3c4d5e6f7a8b9c0'', email = toLowerCase ''ann@b.co''\<rparr>,
                oneEventStore\<lparr>bookings := bookings oneEventStore @
                   [\<lparr>doc_id = newObjectId quietEnv, createdAt = now quietEnv,
                     updatedAt = now quietEnv,
                     eventId = ''64b0c1a2b3c4d5e6f7a8b9c0'', email = toLowerCase ''ann@b.co''\<rparr>]\<rparr>)"
    by (rule Booking_create_ok [OF sample_facts(3) sample_env_facts(5,6) sample_store_facts(1)])
       (simp add: sample_facts sample_store_facts)
  also have "\<dots> = Inr (annBooking, annStore)"
    by (simp add: sample_facts sample_defs)
  finally have "Booking_create quietEnv oneEventStore ''64b0c1a2b3c4d5e6f7a8b9c0'' ''ann@b.co'' =
      Inr (annBooking, annStore)"
    by (simp add: sample_facts)
  then show ?thesis
    by (simp add: createBooking_def createBooking_valid sample_facts sample_env_facts
          sample_store_facts)
qed



subsection \<open>The time pattern\<close>

lemma in_lang_Opt: "w \<in> lang (Opt r) \<longleftrightarrow> w \<in> lang r \<or> w = []"
  by (auto simp: Opt_def)

lemma in_lang_Alt: "w \<in> lang (Alt r s) \<longleftrightarrow> w \<in> lang r \<or> w \<in> lang s"
  by simp

lemma inRange_01: "inRange CHR ''0'' CHR ''1'' c \<longleftrightarrow> c = CHR ''0'' \<or> c = CHR ''1''"
  unfolding char_eq_code [of c] by (auto simp: inRange_def code_def)

lemma spec_HHMM_iff:
  "spec_HHMM t \<longleftrightarrow>
     (\<exists>h1 h2 m1 m2. t = [h1, h2, CHR '':'', m1, m2] \<and>
        ((h1 = CHR ''0'' \<or> h1 = CHR ''1'') \<and> isDigit h2 \<or>
         h1 = CHR ''2'' \<and> inRange CHR ''0'' CHR ''3'' h2) \<and>
        inRange CHR ''0'' CHR ''5'' m1 \<and> isDigit m2)"
  by (induction t rule: spec_HHMM.induct) auto

lemma hourMinute_iff:
  "hourMinute t \<longleftrightarrow>
     (\<exists>h m1 m2. t = [h, CHR '':'', m1, m2] \<and> isDigit h \<and>
        inRange CHR ''0'' CHR ''5'' m1 \<and> isDigit m2) \<or>
     (\<exists>h1 h2 m1 m2. t = [h1, h2, CHR '':'', m1, m2] \<and>
        ((h1 = CHR ''0'' \<or> h1 = CHR ''1'') \<and> isDigit h2 \<or>
         h1 = CHR ''2'' \<and> inRange CHR ''0'' CHR ''3'' h2) \<and>
        inRange CHR ''0'' CHR ''5'' m1 \<and> isDigit m2)"
  by (induction t rule: hourMinute.induct) (auto simp: spec_HHMM_iff)

lemma timeRegex_imp_hourMinute:
  assumes "test timeRegex t"
  shows "hourMinute t"
  using assms unfolding test_def matches_lang timeRegex_def hourMinute_iff
  by (simp only: in_lang_Seq in_lang_Lit in_lang_Cls in_lang_Opt in_lang_Alt inRange_01
        isDigit_def [symmetric])
     auto

lemma hourMinute_imp_timeRegex:
  assumes "hourMinute t"
  shows "test timeRegex t"
proof -
  have c: "CHR ''2'' \<noteq> CHR ''0''" "CHR ''2'' \<noteq> CHR ''1''" by simp_all
  from assms show ?thesis
    unfolding hourMinute_iff
    by (auto simp: test_def timeRegex_def Opt_def Lit_def inRange_01 isDigit_def [symmetric])
qed

lemma timeRegex_hourMinute: "test timeRegex t \<longleftrightarrow> hourMinute t"
  using timeRegex_imp_hourMinute hourMinute_imp_timeRegex by blast


subsection \<open>The blocks of the Event pre-save hook\<close>

lemma time_slugStep [simp]: "time (slugStep isModified doc) = time doc"
  by (simp add: slugStep_def)

lemma date_slugStep [simp]: "date (slugStep isModified doc) = date doc"
  by (simp add: slugStep_def)

lemma agenda_slugStep [simp]: "agenda (slugStep isModified doc) = agenda doc"
  by (simp add: slugStep_def)

lemma tags_slugStep [simp]: "tags (slugStep isModified doc) = tags doc"
  by (simp add: slugStep_def)

lemma dateStep_Inr:
  "dateStep engine isModified doc = Inr d \<Longrightarrow>
     time d = time doc \<and> agenda d = agenda doc \<and> tags d = tags doc"
  by (auto simp: dateStep_def split: if_splits option.splits)

lemma dateStep_passes:
  "\<not> isModified ''date'' \<or> dateParse engine (date doc) \<noteq> None \<Longrightarrow>
     \<exists>d. dateStep engine isModified doc = Inr d"
  by (auto simp: dateStep_def)

lemma date_example_parses:
  "dateParse engine ''2024-03-05T10:00:00Z'' = Some 1709632800000"
proof -
  have "isoParse ''2024-03-05T10:00:00Z'' = Some 1709632800000"
    by code_simp
  then show ?thesis
    by (simp add: dateParse_def timeClip_def)
qed

lemma date_example_prints:
  "takeWhile (\<lambda>c. c \<noteq> CHR ''T'') (toISOString 1709632800000) = ''2024-03-05''"
proof -
  have "toISOString 1709632800000 = ''2024-03-05T10:00:00.000Z''"
    by code_simp
  then show ?thesis by simp
qed

lemma digitChar_not_T: "digitChar (v mod 10) \<noteq> CHR ''T''"
proof -
  have "nat (v mod 10) < length ''0123456789''" by simp
  then have "''0123456789'' ! nat (v mod 10) \<in> set ''0123456789''"
    by (rule nth_mem)
  then show ?thesis
    unfolding digitChar_def by auto
qed

lemma pad_no_T:
  "list_all (\<lambda>c. c \<noteq> CHR ''T'') (pad2 v)" "list_all (\<lambda>c. c \<noteq> CHR ''T'') (pad4 v)"
  "list_all (\<lambda>c. c \<noteq> CHR ''T'') (pad6 v)"
  by (simp_all add: pad2_def pad3_def pad4_def pad6_def digitChar_not_T)

lemma takeWhile_stop: "list_all P a \<Longrightarrow> \<not> P x \<Longrightarrow> takeWhile P (a @ x # r) = a"
  by (induction a) auto

lemma isoDateOnly_no_T: "list_all (\<lambda>c. c \<noteq> CHR ''T'') (isoDateOnly t)"
proof -
  obtain y m d where c: "civilFromDays (t div msPerDay) = (y, m, d)"
    by (cases "civilFromDays (t div msPerDay)") auto
  show ?thesis
    unfolding isoDateOnly_def c
    by (simp add: Let_def pad_no_T)
qed

lemma toISOString_split:
  "\<exists>r. toISOString t = isoDateOnly t @ CHR ''T'' # r"
proof -
  obtain y m d where c: "civilFromDays (t div msPerDay) = (y, m, d)"
    by (cases "civilFromDays (t div msPerDay)") auto
  show ?thesis
    unfolding toISOString_def isoDateOnly_def c
    by (simp add: Let_def)
qed

text \<open>Cutting \<open>toISOString\<close> at the \<open>T\<close> leaves the UTC calendar date.\<close>

lemma split_T_toISOString:
  "takeWhile (\<lambda>c. c \<noteq> CHR ''T'') (toISOString t) = isoDateOnly t"
proof -
  obtain r where "toISOString t = isoDateOnly t @ CHR ''T'' # r"
    using toISOString_split by blast
  then show ?thesis
    using takeWhile_stop [OF isoDateOnly_no_T, of "CHR ''T''" t r] by simp
qed


subsection \<open>The shape of a generated slug\<close>

lemma set_replaceRuns: "set (replaceRuns p r s) \<subseteq> insert r {c \<in> set s. \<not> p c}"
proof (induction p r s rule: replaceRuns.induct)
  case (1 p r)
  show ?case by simp
next
  case (2 p r c cs)
  have "set (dropWhile p cs) \<subseteq> set cs" by (rule set_dropWhileD [THEN subsetI])
  with 2 show ?case by (auto split: if_splits)
qed

lemma set_trimHyphens: "set (trimHyphens s) \<subseteq> set s"
proof -
  have "set (dropWhile isHyphen (rev (dropWhile isHyphen s))) \<subseteq> set (rev (dropWhile isHyphen s))"
    by (rule set_dropWhileD [THEN subsetI])
  also have "\<dots> \<subseteq> set s"
    using set_dropWhileD [of _ isHyphen s] by auto
  finally show ?thesis by (simp add: trimHyphens_def)
qed

lemma set_trim: "set (trim s) \<subseteq> set s"
proof -
  have "set (dropWhile isSpace (rev (dropWhile isSpace s))) \<subseteq> set (rev (dropWhile isSpace s))"
    by (rule set_dropWhileD [THEN subsetI])
  also have "\<dots> \<subseteq> set s"
    using set_dropWhileD [of _ isSpace s] by auto
  finally show ?thesis by (simp add: trim_def)
qed

lemma toLowerChar_not_upper: "\<not> isUpper (toLowerChar c)"
  unfolding isUpper_def inRange_def code_toLowerChar
  by (auto simp: isUpper_def inRange_def) (simp_all add: code_def)

text \<open>The characters of a slug: lower-case letters, digits, the hyphen and the underscore.\<close>

lemma generateSlug_chars:
  assumes "c \<in> set (generateSlug t)"
  shows "isLower c \<or> isDigit c \<or> c = CHR ''-'' \<or> c = CHR ''_''"
proof -
  let ?a = "removeSpecial (trim (toLowerCase t))"
  let ?b = "replaceRuns isSpace CHR ''-'' ?a"
  let ?c = "replaceRuns isHyphen CHR ''-'' ?b"
  have a: "x \<in> set ?a \<Longrightarrow> (isWord x \<or> isSpace x \<or> isHyphen x) \<and> \<not> isUpper x" for x
    using set_trim [of "toLowerCase t"]
    by (auto simp: removeSpecial_def toLowerCase_def toLowerChar_not_upper)
  have b: "x \<in> set ?b \<Longrightarrow> (isWord x \<or> isHyphen x) \<and> \<not> isUpper x" for x
    using set_replaceRuns [of isSpace "CHR ''-''" ?a] a
    by (auto simp: isHyphen_def isUpper_def inRange_def code_def)
  have "c \<in> set ?c"
    using assms set_trimHyphens by (auto simp: generateSlug_def)
  then have "c = CHR ''-'' \<or> c \<in> set ?b"
    using set_replaceRuns [of isHyphen "CHR ''-''" ?b] by auto
  with b show ?thesis
    by (auto simp: isWord_def isHyphen_def)
qed

lemma trimmed_inside:
  "dropWhile p s = rev (dropWhile p (rev (dropWhile p s))) @ rev (takeWhile p (rev (dropWhile p s)))"
proof -
  have "rev (dropWhile p s) = takeWhile p (rev (dropWhile p s)) @ dropWhile p (rev (dropWhile p s))"
    by simp
  then have "rev (rev (dropWhile p s)) =
      rev (takeWhile p (rev (dropWhile p s)) @ dropWhile p (rev (dropWhile p s)))"
    by (rule arg_cong)
  then show ?thesis by (simp del: takeWhile_dropWhile_id)
qed

lemma trimHyphens_ends:
  assumes "trimHyphens s \<noteq> []"
  shows "\<not> isHyphen (hd (trimHyphens s))" and "\<not> isHyphen (last (trimHyphens s))"
proof -
  define u where "u = dropWhile isHyphen s"
  define r where "r = dropWhile isHyphen (rev u)"
  have g: "trimHyphens s = rev r" by (simp add: trimHyphens_def u_def r_def)
  with assms have ne: "r \<noteq> []" by simp
  then have "\<not> isHyphen (hd r)" unfolding r_def by (rule hd_dropWhile)
  with ne show "\<not> isHyphen (last (trimHyphens s))"
    by (simp add: g last_rev)
  have u: "u = rev r @ rev (takeWhile isHyphen (rev u))"
    unfolding u_def r_def by (rule trimmed_inside)
  with ne have une: "u \<noteq> []" by auto
  then have "\<not> isHyphen (hd u)" unfolding u_def by (rule hd_dropWhile)
  moreover from u ne have "hd u = hd (rev r)"
    by (metis hd_append2 rev_is_Nil_conv)
  ultimately show "\<not> isHyphen (hd (trimHyphens s))"
    by (simp add: g)
qed

text \<open>No hyphen at either end.\<close>

lemma generateSlug_ends:
  assumes "generateSlug t \<noteq> []"
  shows "hd (generateSlug t) \<noteq> CHR ''-''" and "last (generateSlug t) \<noteq> CHR ''-''"
  using assms trimHyphens_ends unfolding generateSlug_def isHyphen_def by blast+

lemma noDoubleHyphen_replaceRuns: "noDoubleHyphen (replaceRuns isHyphen CHR ''-'' s)"
proof (induction "isHyphen" "CHR ''-''" s rule: replaceRuns.induct)
  case 1
  show ?case by simp
next
  case (2 c cs)
  show ?case
  proof (cases "isHyphen c")
    case True
    define d where "d = dropWhile isHyphen cs"
    have ih: "noDoubleHyphen (replaceRuns isHyphen CHR ''-'' d)"
      unfolding d_def using 2(1) [OF True] .
    have e: "replaceRuns isHyphen CHR ''-'' (c # cs) = CHR ''-'' # replaceRuns isHyphen CHR ''-'' d"
      using True by (simp add: d_def)
    show ?thesis
    proof (cases d)
      case Nil
      show ?thesis unfolding e Nil by simp
    next
      case (Cons x xs)
      then have "\<not> isHyphen x"
        using hd_dropWhile [of isHyphen cs] by (simp add: d_def)
      with ih show ?thesis unfolding e Cons by simp
    qed
  next
    case False
    with 2(2) show ?thesis
      by (cases "replaceRuns isHyphen CHR ''-'' cs") auto
  qed
qed

lemma noDoubleHyphen_tl: "noDoubleHyphen (a # s) \<Longrightarrow> noDoubleHyphen s"
  by (cases s) auto

lemma noDoubleHyphen_suffix: "noDoubleHyphen (a @ b) \<Longrightarrow> noDoubleHyphen b"
  by (induction a) (auto dest: noDoubleHyphen_tl)

lemma noDoubleHyphen_prefix: "noDoubleHyphen (b @ c) \<Longrightarrow> noDoubleHyphen b"
proof (induction b rule: noDoubleHyphen.induct)
  case (1 x y s)
  then show ?case by simp
qed auto

text \<open>No two hyphens in a row.\<close>

lemma generateSlug_single_hyphens: "noDoubleHyphen (generateSlug t)"
proof -
  define s where "s = replaceRuns isHyphen CHR ''-'' (replaceRuns isSpace CHR ''-''
              (removeSpecial (trim (toLowerCase t))))"
  define u where "u = dropWhile isHyphen s"
  have "noDoubleHyphen s"
    unfolding s_def by (rule noDoubleHyphen_replaceRuns)
  moreover have "s = takeWhile isHyphen s @ u"
    by (simp add: u_def)
  ultimately have "noDoubleHyphen u"
    using noDoubleHyphen_suffix by metis
  moreover have "u = trimHyphens s @ rev (takeWhile isHyphen (rev u))"
    unfolding u_def trimHyphens_def by (rule trimmed_inside)
  ultimately have "noDoubleHyphen (trimHyphens s)"
    using noDoubleHyphen_prefix by metis
  then show ?thesis by (simp add: generateSlug_def s_def)
qed


section \<open>createBooking: the order of the input checks\<close>


text \<open>
  C2. Whatever the store holds and whatever its operations would do, createBooking
  answers from the first input check that fails, in the order: eventId present, email
  present, email format, eventId shape; the store comes back as it was. The statement
  holds for every environment, also one in which each store operation throws, so no
  store operation decides the answer.
\<close>

theorem createBooking_first_failing_check:
  "(missing eid \<longrightarrow>
      createBooking ev db eid em = (rejected ''Event ID is required'', db)) \<and>
   (\<not> missing eid \<and> missing em \<longrightarrow>
      createBooking ev db eid em = (rejected ''Email is required'', db)) \<and>
   (\<not> missing eid \<and> \<not> missing em \<and> em = Some a \<and> \<not> test emailRegex a \<longrightarrow>
      createBooking ev db eid em = (rejected ''Invalid email format'', db)) \<and>
   (\<not> missing eid \<and> \<not> missing em \<and> em = Some a \<and> test emailRegex a \<and>
    eid = Some i \<and> \<not> ObjectId_isValid i \<longrightarrow>
      createBooking ev db eid em = (rejected ''Invalid event ID format'', db))"
  by (auto simp: createBooking_def createBooking_try_def)

theorem createBooking_first_failing_check_witness:
  "createBooking brokenEnv oneEventStore None (Some ''not an email'') =
     (rejected ''Event ID is required'', oneEventStore) \<and>
   createBooking brokenEnv oneEventStore (Some ''not-an-id'') (Some ''  '') =
     (rejected ''Email is required'', oneEventStore) \<and>
   createBooking brokenEnv oneEventStore (Some ''not-an-id'') (Some ''a@b'') =
     (rejected ''Invalid email format'', oneEventStore) \<and>
   createBooking brokenEnv oneEventStore (Some ''not-an-id'') (Some ''a@b.co'') =
     (rejected ''Invalid event ID format'', oneEventStore)"
proof -
  have m1: "missing None" "\<not> missing (Some ''not-an-id'')" "missing (Some ''  '')"
    "\<not> missing (Some ''a@b'')" "\<not> missing (Some ''a@b.co'')"
    by (simp_all add: missing_def trim_def char_eval)
  have e1: "\<not> test emailRegex ''a@b''" "test emailRegex ''a@b.co''"
    by (simp_all add: emailRegex_def regex_eval)
  have i1: "\<not> ObjectId_isValid ''not-an-id''"
    by (simp add: ObjectId_isValid_def)
  show ?thesis
    using createBooking_first_failing_check
            [of None brokenEnv oneEventStore "Some ''not an email''" "''x''" "''y''"]
          createBooking_first_failing_check
            [of "Some ''not-an-id''" brokenEnv oneEventStore "Some ''  ''" "''x''" "''y''"]
          createBooking_first_failing_check
            [of "Some ''not-an-id''" brokenEnv oneEventStore "Some ''a@b''" "''a@b''" "''y''"]
          createBooking_first_failing_check
            [of "Some ''not-an-id''" brokenEnv oneEventStore "Some ''a@b.co''" "''a@b.co''"
                "''not-an-id''"]
          m1 e1 i1
    by simp
qed


section \<open>The slug derived from a title\<close>

text \<open>
  C4. The slug of the title \<open>Node_JS Meetup\<close> is \<open>node_js-meetup\<close>: the underscore is a
  word character for \<open>\w\<close> and stays in the slug. The route handler's slug pattern
  refuses this slug, so GET answers 400 for it. (Apart from the underscore the slug has
  the shape the claim gives: \<open>generateSlug_chars\<close>, \<open>generateSlug_ends\<close>,
  \<open>generateSlug_single_hyphens\<close>.)
\<close>

theorem generateSlug_keeps_underscore:
  "slug (slugStep newDocument (myEvent\<lparr>title := ''Node_JS Meetup''\<rparr>)) = ''node_js-meetup'' \<and>
   CHR ''_'' \<in> set (generateSlug ''Node_JS Meetup'') \<and>
   \<not> test slugRegex (generateSlug ''Node_JS Meetup'') \<and>
   status (GET quietEnv oneEventStore (Some (generateSlug ''Node_JS Meetup''))) = 400"
proof -
  have g: "generateSlug ''Node_JS Meetup'' = ''node_js-meetup''"
    by (simp add: generateSlug_def toLowerCase_def toLowerChar_def trim_def removeSpecial_def
          trimHyphens_def isHyphen_def char_eval char_of_def bit_Suc_0_iff)
  have s: "slugSetter ''node_js-meetup'' = ''node_js-meetup''"
    by (simp add: slugSetter_def toLowerCase_def toLowerChar_def trim_def char_eval)
  have t: "\<not> test slugRegex ''node_js-meetup''"
    by (simp add: slugRegex_def regex_eval)
  show ?thesis
    by (simp add: slugStep_def newDocument_def myEvent_def g s t GET_def GET_try_def json_def)
qed


section \<open>GET by slug\<close>

lemma find_distinct_slug:
  "e \<in> set xs \<Longrightarrow> distinct (map slug xs) \<Longrightarrow> find (\<lambda>x. slug x = slug e) xs = Some e"
  by (induction xs) (auto simp: image_iff)

lemma find_absent_slug: "s \<notin> slug ` set xs \<Longrightarrow> find (\<lambda>x. slug x = s) xs = None"
  by (induction xs) auto

lemma not_slug_empty: "\<not> test slugRegex []"
  by (simp add: slugRegex_def test_def Plus1_def)

text \<open>
  C6. A slug outside the pattern is answered 400 whatever the store holds and whatever
  its operations would do (no store operation decides the answer); a slug in the pattern
  that names a stored event is answered 200 with that event, and one that names none is
  answered 404, when connecting and querying do not throw. Slugs are unique in the
  store (the unique index on \<open>slug\<close>).
\<close>

theorem GET_by_slug:
  "(\<not> test slugRegex s \<longrightarrow>
      GET ev db (Some s) =
        json (if s = [] then ''Slug parameter is required''
              else ''Invalid slug format. Slug must contain only lowercase letters, numbers, and hyphens'')
          400) \<and>
   (test slugRegex s \<and> connectDB_throws ev = None \<and> findOne_throws ev = None \<and>
    e \<in> set (events db) \<and> slug e = s \<and> distinct (map slug (events db)) \<longrightarrow>
      GET ev db (Some s) =
        \<lparr>status = 200, body_message = ''Event fetched successfully'',
         body_event = Some e, body_error = None\<rparr>) \<and>
   (test slugRegex s \<and> connectDB_throws ev = None \<and> findOne_throws ev = None \<and>
    s \<notin> slug ` set (events db) \<longrightarrow>
      status (GET ev db (Some s)) = 404 \<and> body_event (GET ev db (Some s)) = None)"
proof (intro conjI impI)
  assume "\<not> test slugRegex s"
  then show "GET ev db (Some s) =
        json (if s = [] then ''Slug parameter is required''
              else ''Invalid slug format. Slug must contain only lowercase letters, numbers, and hyphens'')
          400"
    by (simp add: GET_def GET_try_def)
next
  assume a: "test slugRegex s \<and> connectDB_throws ev = None \<and> findOne_throws ev = None \<and>
    e \<in> set (events db) \<and> slug e = s \<and> distinct (map slug (events db))"
  then have "s \<noteq> []" using not_slug_empty by auto
  moreover from a have "Event_findOne db s = Some e"
    using find_distinct_slug [of e "events db"]
    by (auto simp: Event_findOne_def slugSetter_slug)
  ultimately show "GET ev db (Some s) =
        \<lparr>status = 200, body_message = ''Event fetched successfully'',
         body_event = Some e, body_error = None\<rparr>"
    using a by (simp add: GET_def GET_try_def)
next
  assume a: "test slugRegex s \<and> connectDB_throws ev = None \<and> findOne_throws ev = None \<and>
    s \<notin> slug ` set (events db)"
  then have ne: "s \<noteq> []" using not_slug_empty by auto
  from a have f: "Event_findOne db s = None"
    using find_absent_slug [of s "events db"]
    by (simp add: Event_findOne_def slugSetter_slug)
  from a ne f show "status (GET ev db (Some s)) = 404"
    by (simp add: GET_def GET_try_def json_def)
  from a ne f show "body_event (GET ev db (Some s)) = None"
    by (simp add: GET_def GET_try_def json_def)
qed

theorem GET_by_slug_witness:
  "GET brokenEnv oneEventStore (Some ''My_Event'') =
     json ''Invalid slug format. Slug must contain only lowercase letters, numbers, and hyphens'' 400 \<and>
   GET quietEnv oneEventStore (Some ''my-event'') =
     \<lparr>status = 200, body_message = ''Event fetched successfully'',
      body_event = Some myEvent, body_error = None\<rparr> \<and>
   status (GET quietEnv emptyStore (Some ''unknown-event'')) = 404 \<and>
   body_event (GET quietEnv emptyStore (Some ''unknown-event'')) = None"
proof -
  have t: "\<not> test slugRegex ''My_Event''" "test slugRegex ''my-event''"
    "test slugRegex ''unknown-event''"
    by (simp_all add: slugRegex_def regex_eval)
  have q: "connectDB_throws quietEnv = None" "findOne_throws quietEnv = None"
    by (simp_all add: quietEnv_def)
  have s: "myEvent \<in> set (events oneEventStore)" "slug myEvent = ''my-event''"
    "distinct (map slug (events oneEventStore))"
    "''unknown-event'' \<notin> slug ` set (events emptyStore)"
    by (simp_all add: oneEventStore_def myEvent_def emptyStore_def)
  show ?thesis
    using GET_by_slug [of "''My_Event''" brokenEnv oneEventStore myEvent]
          GET_by_slug [of "''my-event''" quietEnv oneEventStore myEvent]
          GET_by_slug [of "''unknown-event''" quietEnv emptyStore myEvent]
          t q s
    by simp
qed


section \<open>Similar events\<close>

text \<open>
  C8. getSimilarEventsBySlug always resolves to an array and never rejects: it resolves
  to the empty array when the slug names no event, when the source event has no tags,
  and when connecting or either query throws.
\<close>

theorem getSimilar_never_raises:
  "(\<exists>xs. getSimilarEventsBySlug ev db sl lim = Inr xs) \<and>
   (Event_findOne db s = None \<longrightarrow> getSimilarEventsBySlug ev db (Some s) lim = Inr []) \<and>
   (Event_findOne db s = Some src \<and> tags src = [] \<longrightarrow>
      getSimilarEventsBySlug ev db (Some s) lim = Inr []) \<and>
   (connectDB_throws ev \<noteq> None \<or> findOne_throws ev \<noteq> None \<or> find_throws ev \<noteq> None \<longrightarrow>
      getSimilarEventsBySlug ev db sl lim = Inr [])"
  by (auto simp: getSimilarEventsBySlug_def getSimilar_try_def split: option.splits sum.splits)

theorem getSimilar_never_raises_witness:
  "getSimilarEventsBySlug quietEnv fourEventStore (Some ''unknown-event'') None = Inr [] \<and>
   getSimilarEventsBySlug quietEnv bareStore (Some ''bare'') None = Inr [] \<and>
   getSimilarEventsBySlug brokenEnv fourEventStore (Some ''my-event'') None = Inr []"
proof -
  have a: "Event_findOne fourEventStore ''unknown-event'' = None"
    "Event_findOne bareStore ''bare'' = Some bareEvent" "tags bareEvent = []"
    "connectDB_throws brokenEnv \<noteq> None"
    by (simp_all add: Event_findOne_def slugSetter_def lower_eval trim_def char_eval sample_defs)
  show ?thesis
    using getSimilar_never_raises
            [of quietEnv fourEventStore None None "''unknown-event''" myEvent]
          getSimilar_never_raises
            [of quietEnv bareStore None None "''bare''" bareEvent]
          getSimilar_never_raises
            [of brokenEnv fourEventStore "Some ''my-event''" None "''x''" myEvent]
          a
    by simp
qed

lemma sharesTag_iff: "sharesTag ts e \<longleftrightarrow> set (tags e) \<inter> set ts \<noteq> {}"
  by (auto simp: sharesTag_def list_ex_iff)

lemma mset_mostRecentFirst: "mset (mostRecentFirst xs) = mset xs"
  by (simp add: mostRecentFirst_def)

lemma sorted_mostRecentFirst:
  "sorted_wrt (\<lambda>a b. createdAt b \<le> createdAt a) (mostRecentFirst xs)"
proof -
  have "sorted (map (\<lambda>e. - createdAt e) (mostRecentFirst xs))"
    by (simp add: mostRecentFirst_def)
  then show ?thesis
    by (simp add: sorted_map)
qed

text \<open>
  What the query returns for a positive limit \<open>k\<close> (5 when none is given), when the slug
  names a source event with tags and no store operation throws: the first \<open>k\<close> of a list
  \<open>ys\<close> that holds exactly the events other than the source sharing at least one tag
  with it, most recently created first.
\<close>

lemma getSimilar_positive_limit:
  assumes "\<not> missing (Some s)"
    and "connectDB_throws ev = None" and "findOne_throws ev = None" and "find_throws ev = None"
    and "Event_findOne db s = Some src" and "tags src \<noteq> []"
    and "k = (case lim of None \<Rightarrow> 5 | Some n \<Rightarrow> n)" and "0 < k"
  shows "\<exists>ys. getSimilarEventsBySlug ev db (Some s) lim = Inr (take k ys) \<and>
           mset ys = mset (filter (\<lambda>e. doc_id e \<noteq> doc_id src \<and>
                                      set (tags e) \<inter> set (tags src) \<noteq> {}) (events db)) \<and>
           sorted_wrt (\<lambda>a b. createdAt b \<le> createdAt a) ys"
proof -
  let ?ms = "filter (\<lambda>e. doc_id e \<noteq> doc_id src \<and> sharesTag (tags src) e) (events db)"
  have "getSimilarEventsBySlug ev db (Some s) lim = Inr (take k (mostRecentFirst ?ms))"
    using assms
    by (simp add: getSimilarEventsBySlug_def getSimilar_try_def Event_find_similar_def
          storeLimit_def limitOrDefault_def)
  moreover have "mset (mostRecentFirst ?ms) =
      mset (filter (\<lambda>e. doc_id e \<noteq> doc_id src \<and> set (tags e) \<inter> set (tags src) \<noteq> {}) (events db))"
    by (simp add: mset_mostRecentFirst sharesTag_iff)
  ultimately show ?thesis
    using sorted_mostRecentFirst by blast
qed

lemmas similar_eval =
  getSimilarEventsBySlug_def getSimilar_try_def Event_find_similar_def storeLimit_def
  limitOrDefault_def missing_def trim_def char_eval Event_findOne_def slugSetter_def lower_eval
  sharesTag_def mostRecentFirst_def sample_defs

text \<open>
  C7. With \<open>myEvent\<close> (tags \<open>ai\<close>, \<open>infra\<close>) as the source and two other events sharing
  \<open>ai\<close>, the limit 1 returns the more recent one and the default limit both, most recent
  first; the limit 0 returns both as well, where the claim's truncation (and the
  function's own \<open>@param limit - Maximum number of similar events to return\<close>) leaves
  none: the limit goes to the store's \<open>limit\<close> unguarded, and the store reads 0 as "no
  limit".
\<close>

theorem getSimilar_limit_zero_returns_all:
  "spec_getSimilar fourEventStore myEvent 0 = [] \<and>
   getSimilarEventsBySlug quietEnv fourEventStore (Some ''my-event'') (Some 0) =
     Inr [aiNight, aiSummit] \<and>
   getSimilarEventsBySlug quietEnv fourEventStore (Some ''my-event'') (Some 1) =
     Inr [aiNight] \<and>
   getSimilarEventsBySlug quietEnv fourEventStore (Some ''my-event'') None =
     Inr [aiNight, aiSummit]"
  by (simp add: spec_getSimilar_def similar_eval)


section \<open>createBooking: referential check, duplicates, normalisation\<close>

text \<open>
  C3. An eventId of the right shape that names no stored event, with an address that
  passes the email check, is answered "Event not found", and the store is returned as it
  was: the hook's lookup runs before the insert. Connecting and the two lookups do not
  throw, and the store is one that createBooking keeps (referential integrity).
\<close>

theorem createBooking_event_not_found:
  assumes "ObjectId_isValid i" and "test emailRegex a"
    and "connectDB_throws ev = None" and "findOne_throws ev = None"
    and "findById_throws ev = None"
    and "Event_findById db (ObjectId_new i) = None"
    and "refIntegrity db"
  shows "createBooking ev db (Some i) (Some a) = (rejected ''Event not found'', db)"
proof -
  have nb: "Booking_findOne db (ObjectId_new i) (toLowerCase a) = None"
    using assms(7,6) by (rule refIntegrity_no_booking)
  have "Booking_create ev db (ObjectId_new i) (toLowerCase a) =
          Inl (Error (''Event with ID '' @ ObjectId_new i @ '' does not exist''))"
    using assms(2,5,6) by (rule Booking_create_no_event)
  then have "createBooking_try ev db (Some i) (Some a) =
          Inl (Error (''Event with ID '' @ ObjectId_new i @ '' does not exist''))"
    using assms(3,4) nb by (simp add: createBooking_valid [OF assms(1,2)])
  then show ?thesis
    using hook_message_caught [OF assms(1)] by (simp add: createBooking_def)
qed

theorem createBooking_event_not_found_witness:
  "createBooking quietEnv annStore (Some ''64b0c1a2b3c4d5e6f7a8b9ff'') (Some ''ann@b.co'') =
     (rejected ''Event not found'', annStore)"
proof -
  have h: "ObjectId_isValid ''64b0c1a2b3c4d5e6f7a8b9ff''" "test emailRegex ''ann@b.co''"
    "connectDB_throws quietEnv = None" "findOne_throws quietEnv = None"
    "findById_throws quietEnv = None"
    "Event_findById annStore (ObjectId_new ''64b0c1a2b3c4d5e6f7a8b9ff'') = None"
    "refIntegrity annStore"
    by (simp_all add: ObjectId_isValid_def isHex_def emailRegex_def regex_eval sample_defs
          Event_findById_def ObjectId_new_def toLowerCase_def toLowerChar_def refIntegrity_def)
  show ?thesis
    using createBooking_event_not_found [OF h] .
qed

text \<open>
  C1, amended. For a pair that passes the input checks and names a stored event, with no
  booking yet for the pair, createBooking inserts the booking and reports it; the same
  pair again is answered "You have already booked this event"; the same eventId with
  another address that passes the check, has no booking yet and differs from the first
  after lower-casing is accepted; and when the insert throws an Error whose message
  holds "duplicate key", the answer is again "You have already booked this event". No
  other store operation throws.
\<close>

theorem createBooking_once_per_email:
  assumes "ObjectId_isValid i" and "test emailRegex a" and "test emailRegex a2"
    and "Event_findById db (ObjectId_new i) = Some e"
    and "Booking_findOne db (ObjectId_new i) (toLowerCase a) = None"
    and "Booking_findOne db (ObjectId_new i) (toLowerCase a2) = None"
    and "toLowerCase a2 \<noteq> toLowerCase a"
    and "quiet ev" and "quiet ev2"
    and "includesStr m ''duplicate key''"
  shows "\<exists>b db'.
           createBooking ev db (Some i) (Some a) = (created b, db') \<and>
           bookings db' = bookings db @ [b] \<and>
           eventId b = ObjectId_new i \<and> email b = toLowerCase a \<and>
           createBooking ev2 db' (Some i) (Some a) =
             (rejected ''You have already booked this event'', db') \<and>
           success (fst (createBooking ev2 db' (Some i) (Some a2))) \<and>
           createBooking (ev\<lparr>create_throws := Some (Error m)\<rparr>) db (Some i) (Some a) =
             (rejected ''You have already booked this event'', db)"
proof -
  let ?oid = "ObjectId_new i"
  let ?b = "\<lparr>doc_id = newObjectId ev, createdAt = now ev, updatedAt = now ev,
             eventId = ?oid, email = toLowerCase a\<rparr>"
  let ?db' = "db\<lparr>bookings := bookings db @ [?b]\<rparr>"
  have q: "connectDB_throws ev = None" "findOne_throws ev = None" "findById_throws ev = None"
    "create_throws ev = None"
    and q2: "connectDB_throws ev2 = None" "findOne_throws ev2 = None"
    "findById_throws ev2 = None" "create_throws ev2 = None"
    using assms(8,9) by (simp_all add: quiet_def)
  have first: "createBooking ev db (Some i) (Some a) = (created ?b, ?db')"
    using q assms(5) Booking_create_ok [OF assms(2) q(3,4) assms(4,5)]
    by (simp add: createBooking_def createBooking_valid [OF assms(1,2)])
  have found: "Booking_findOne ?db' ?oid (toLowerCase a) = Some ?b"
    using assms(5)
    by (simp add: Booking_findOne_def find_snoc normalize_valid_email(2) [OF assms(2)])
  have again: "createBooking ev2 ?db' (Some i) (Some a) =
      (rejected ''You have already booked this event'', ?db')"
    using q2 found by (simp add: createBooking_def createBooking_valid [OF assms(1,2)])
  have free: "Booking_findOne ?db' ?oid (toLowerCase a2) = None"
    using assms(6,7)
    by (simp add: Booking_findOne_def find_snoc normalize_valid_email(2) [OF assms(3)])
  have ev': "Event_findById ?db' ?oid = Some e"
    using assms(4) by simp
  have other: "success (fst (createBooking ev2 ?db' (Some i) (Some a2)))"
    using q2 free Booking_create_ok [OF assms(3) q2(3,4) ev' free]
    by (simp add: createBooking_def createBooking_valid [OF assms(1,3)] created_def)
  have thrown: "Booking_create (ev\<lparr>create_throws := Some (Error m)\<rparr>) db ?oid (toLowerCase a) =
      Inl (Error m)"
    using q assms(4) Booking_create_throws [OF assms(2), of "ev\<lparr>create_throws := Some (Error m)\<rparr>"]
    by simp
  have dup: "createBooking (ev\<lparr>create_throws := Some (Error m)\<rparr>) db (Some i) (Some a) =
      (rejected ''You have already booked this event'', db)"
    using q assms(5,10) thrown
    by (simp add: createBooking_def createBooking_valid [OF assms(1,2)] createBooking_catch_def)
  from first again other dup show ?thesis
    by (intro exI [of _ ?b] exI [of _ ?db']) simp
qed

theorem createBooking_once_per_email_witness:
  "createBooking quietEnv oneEventStore (Some ''64b0c1a2b3c4d5e6f7a8b9c0'') (Some ''ann@b.co'') =
     (created annBooking, annStore) \<and>
   createBooking laterEnv annStore (Some ''64b0c1a2b3c4d5e6f7a8b9c0'') (Some ''ann@b.co'') =
     (rejected ''You have already booked this event'', annStore) \<and>
   success (fst (createBooking laterEnv annStore (Some ''64b0c1a2b3c4d5e6f7a8b9c0'')
                   (Some ''bob@b.co''))) \<and>
   createBooking raceEnv oneEventStore (Some ''64b0c1a2b3c4d5e6f7a8b9c0'') (Some ''ann@b.co'') =
     (rejected ''You have already booked this event'', oneEventStore)"
proof -
  let ?m = "''E11000 duplicate key error collection: bookings index: eventId_1_email_1 dup key''"
  have d: "includesStr ?m ''duplicate key''"
    by simp
  have r: "raceEnv = quietEnv\<lparr>create_throws := Some (Error ?m)\<rparr>"
    by (simp add: raceEnv_def duplicateKeyError_def)
  have n: "toLowerCase ''bob@b.co'' \<noteq> toLowerCase ''ann@b.co''"
    by (simp add: sample_facts)
  from createBooking_once_per_email
         [of "''64b0c1a2b3c4d5e6f7a8b9c0''" "''ann@b.co''" "''bob@b.co''" oneEventStore myEvent
             quietEnv laterEnv ?m]
  obtain b db' where
    "createBooking quietEnv oneEventStore (Some ''64b0c1a2b3c4d5e6f7a8b9c0'') (Some ''ann@b.co'') =
       (created b, db')"
    "createBooking laterEnv db' (Some ''64b0c1a2b3c4d5e6f7a8b9c0'') (Some ''ann@b.co'') =
       (rejected ''You have already booked this event'', db')"
    "success (fst (createBooking laterEnv db' (Some ''64b0c1a2b3c4d5e6f7a8b9c0'')
                     (Some ''bob@b.co'')))"
    "createBooking (quietEnv\<lparr>create_throws := Some (Error ?m)\<rparr>) oneEventStore
       (Some ''64b0c1a2b3c4d5e6f7a8b9c0'') (Some ''ann@b.co'') =
       (rejected ''You have already booked this event'', oneEventStore)"
    using d n by (auto simp: sample_facts sample_env_facts sample_store_facts)
  with first_booking r show ?thesis
    by simp
qed

text \<open>
  C1 as stated fails for two addresses that differ only in letter case: both pass the
  email check and they are different strings, yet the second is answered as a duplicate
  of the first.
\<close>

theorem createBooking_case_variant_counterexample:
  "createBooking quietEnv oneEventStore (Some ''64b0c1a2b3c4d5e6f7a8b9c0'') (Some ''ann@b.co'') =
     (created annBooking, annStore) \<and>
   test emailRegex ''Ann@b.co'' \<and> ''Ann@b.co'' \<noteq> ''ann@b.co'' \<and>
   createBooking laterEnv annStore (Some ''64b0c1a2b3c4d5e6f7a8b9c0'') (Some ''Ann@b.co'') =
     (rejected ''You have already booked this event'', annStore)"
proof -
  have "createBooking laterEnv annStore (Some ''64b0c1a2b3c4d5e6f7a8b9c0'') (Some ''Ann@b.co'') =
     (rejected ''You have already booked this event'', annStore)"
    by (simp add: createBooking_def createBooking_valid sample_facts sample_env_facts
          sample_store_facts)
  then show ?thesis
    using first_booking by (simp add: sample_facts)
qed

text \<open>
  C10. The email check reads the string as given: an address that is not blank and
  begins or ends with white space is answered "Invalid email format" once the eventId
  is present, whatever the store. Lower-casing and trimming come after the checks: a
  call that succeeds found no booking for the id and the normalised address, inserted
  a booking with the normalised address and reports that address; and a stored booking
  with the id and the normalised address makes the call a duplicate.
\<close>

theorem createBooking_checks_raw_email:
  "(\<not> missing eid \<and> \<not> missing (Some a) \<and> (isSpace (hd a) \<or> isSpace (last a)) \<longrightarrow>
      createBooking ev db eid (Some a) = (rejected ''Invalid email format'', db)) \<and>
   (createBooking ev db eid (Some a) = (r, db') \<and> success r \<longrightarrow>
      (\<exists>i b. eid = Some i \<and> test emailRegex a \<and>
         Booking_findOne db (ObjectId_new i) (trim (toLowerCase a)) = None \<and>
         bookings db' = bookings db @ [b] \<and> email b = trim (toLowerCase a) \<and>
         data r = Some \<lparr>bookingId = newObjectId ev, data_eventId = ObjectId_new i,
                         data_email = trim (toLowerCase a)\<rparr>)) \<and>
   (ObjectId_isValid i \<and> test emailRegex a \<and>
    connectDB_throws ev = None \<and> findOne_throws ev = None \<and>
    Booking_findOne db (ObjectId_new i) (trim (toLowerCase a)) = Some b0 \<longrightarrow>
      createBooking ev db (Some i) (Some a) =
        (rejected ''You have already booked this event'', db))"
proof (intro conjI impI)
  assume h: "\<not> missing eid \<and> \<not> missing (Some a) \<and> (isSpace (hd a) \<or> isSpace (last a))"
  then have "a \<noteq> []" by (auto simp: missing_def)
  moreover from h have "isSpace (hd a) \<or> isSpace (last a)" by simp
  ultimately have "\<not> test emailRegex a" by (rule spaced_email_fails)
  with h show "createBooking ev db eid (Some a) = (rejected ''Invalid email format'', db)"
    by (simp add: createBooking_def createBooking_try_def)
next
  assume h: "createBooking ev db eid (Some a) = (r, db') \<and> success r"
  with createBooking_cases [of ev db eid "Some a"]
  obtain i b where c: "eid = Some i" "test emailRegex a"
    "Booking_findOne db (ObjectId_new i) (trim (toLowerCase a)) = None"
    "Booking_create ev db (ObjectId_new i) (trim (toLowerCase a)) =
       Inr (b, db\<lparr>bookings := bookings db @ [b]\<rparr>)"
    "createBooking ev db eid (Some a) = (created b, db\<lparr>bookings := bookings db @ [b]\<rparr>)"
    by auto
  have n: "emailSetter (trim (toLowerCase a)) = trim (toLowerCase a)"
    using normalize_valid_email [OF c(2)] by simp
  from Booking_create_Inr(1) [OF c(4)] n
  have b: "doc_id b = newObjectId ev" "eventId b = ObjectId_new i"
    "email b = trim (toLowerCase a)"
    by simp_all
  from h c(5) have "r = created b" "db' = db\<lparr>bookings := bookings db @ [b]\<rparr>"
    by simp_all
  with b c(1,2,3)
  show "\<exists>i b. eid = Some i \<and> test emailRegex a \<and>
         Booking_findOne db (ObjectId_new i) (trim (toLowerCase a)) = None \<and>
         bookings db' = bookings db @ [b] \<and> email b = trim (toLowerCase a) \<and>
         data r = Some \<lparr>bookingId = newObjectId ev, data_eventId = ObjectId_new i,
                         data_email = trim (toLowerCase a)\<rparr>"
    by (simp add: created_def)
next
  assume h: "ObjectId_isValid i \<and> test emailRegex a \<and>
    connectDB_throws ev = None \<and> findOne_throws ev = None \<and>
    Booking_findOne db (ObjectId_new i) (trim (toLowerCase a)) = Some b0"
  then have v: "ObjectId_isValid i" "test emailRegex a" by simp_all
  from h normalize_valid_email(1) [OF v(2)]
  show "createBooking ev db (Some i) (Some a) =
        (rejected ''You have already booked this event'', db)"
    by (simp add: createBooking_def createBooking_valid [OF v])
qed

theorem createBooking_checks_raw_email_witness:
  "createBooking brokenEnv oneEventStore (Some ''64b0c1a2b3c4d5e6f7a8b9c0'') (Some '' ann@b.co'') =
     (rejected ''Invalid email format'', oneEventStore) \<and>
   data (fst (createBooking quietEnv oneEventStore (Some ''64b0c1a2b3c4d5e6f7a8b9c0'')
                (Some ''Ann@b.co''))) =
     Some \<lparr>bookingId = ''65f0c1a2b3c4d5e6f7a8b9c1'',
            data_eventId = ''64b0c1a2b3c4d5e6f7a8b9c0'', data_email = ''ann@b.co''\<rparr> \<and>
   createBooking laterEnv annStore (Some ''64b0c1a2b3c4d5e6f7a8b9c0'') (Some ''Ann@b.co'') =
     (rejected ''You have already booked this event'', annStore)"
proof -
  have m: "\<not> missing (Some ''64b0c1a2b3c4d5e6f7a8b9c0'')" "\<not> missing (Some '' ann@b.co'')"
    "isSpace (hd '' ann@b.co'')"
    by (simp_all add: missing_def trim_def char_eval)
  have t: "trim (toLowerCase ''Ann@b.co'') = ''ann@b.co''"
    by (simp add: sample_facts trim_def char_eval)
  have c: "createBooking quietEnv oneEventStore (Some ''64b0c1a2b3c4d5e6f7a8b9c0'')
             (Some ''Ann@b.co'') = (created annBooking, annStore)"
    using first_booking
          createBooking_same_lower_case
            [of "''64b0c1a2b3c4d5e6f7a8b9c0''" "''Ann@b.co''" "''ann@b.co''" quietEnv oneEventStore]
    by (simp add: sample_facts)
  have s: "success (created annBooking)" "newObjectId quietEnv = ''65f0c1a2b3c4d5e6f7a8b9c1''"
    by (simp_all add: created_def quietEnv_def)
  show ?thesis
    using createBooking_checks_raw_email
            [of "Some ''64b0c1a2b3c4d5e6f7a8b9c0''" "'' ann@b.co''" brokenEnv oneEventStore
                "created annBooking" annStore "''64b0c1a2b3c4d5e6f7a8b9c0''" annBooking]
          createBooking_checks_raw_email
            [of "Some ''64b0c1a2b3c4d5e6f7a8b9c0''" "''Ann@b.co''" quietEnv oneEventStore
                "created annBooking" annStore "''64b0c1a2b3c4d5e6f7a8b9c0''" annBooking]
          createBooking_checks_raw_email
            [of "Some ''64b0c1a2b3c4d5e6f7a8b9c0''" "''Ann@b.co''" laterEnv annStore
                "created annBooking" annStore "''64b0c1a2b3c4d5e6f7a8b9c0''" annBooking]
          m t c s
    by (auto simp: sample_facts sample_env_facts sample_store_facts)
qed



section \<open>The Event pre-save hook: time and date\<close>

text \<open>
  C5, amended. When the time is modified and the date block does not throw (the date is
  unmodified or parses), the hook throws the invalid-time error exactly when the time
  is not of the form \<open>H:MM\<close> or \<open>HH:MM\<close>: an hour 0 to 23 written with one or two
  digits, a colon, minutes 00 to 59.
\<close>

theorem eventSchema_time_check:
  assumes "isModified ''time''"
    and "\<not> isModified ''date'' \<or> dateParse engine (date doc) \<noteq> None"
  shows "eventSchema_preSave engine isModified doc =
           Inl (Error ''Invalid time format. Use HH:MM format (e.g., 14:30).'')
         \<longleftrightarrow> \<not> hourMinute (time doc)"
proof -
  have "\<not> isModified ''date'' \<or>
          dateParse engine (date (slugStep isModified doc)) \<noteq> None"
    using assms(2) by simp
  then obtain d where d: "dateStep engine isModified (slugStep isModified doc) = Inr d"
    using dateStep_passes [of isModified engine "slugStep isModified doc"] by blast
  from dateStep_Inr [OF d] have t: "time d = time doc" by simp
  show ?thesis
    using assms(1)
    by (auto simp: eventSchema_preSave_def d timeStep_def listsStep_def t timeRegex_hourMinute)
qed


theorem eventSchema_time_check_witness:
  "eventSchema_preSave noEngine (onlyModified ''time'') (myEvent\<lparr>time := ''25:00''\<rparr>) =
     Inl (Error ''Invalid time format. Use HH:MM format (e.g., 14:30).'') \<and>
   eventSchema_preSave noEngine (onlyModified ''time'') (myEvent\<lparr>time := ''09:30''\<rparr>) \<noteq>
     Inl (Error ''Invalid time format. Use HH:MM format (e.g., 14:30).'')"
proof -
  have m: "onlyModified ''time'' ''time''"
    "\<not> onlyModified ''time'' ''date'' \<or> dateParse noEngine (date (myEvent\<lparr>time := ''25:00''\<rparr>)) \<noteq> None"
    "\<not> onlyModified ''time'' ''date'' \<or> dateParse noEngine (date (myEvent\<lparr>time := ''09:30''\<rparr>)) \<noteq> None"
    by (simp_all add: onlyModified_def)
  have h: "\<not> hourMinute ''25:00''" "hourMinute ''09:30''"
    by (simp_all add: char_eval)
  show ?thesis
    using eventSchema_time_check [OF m(1,2)] eventSchema_time_check [OF m(1,3)] h
    by simp
qed

text \<open>
  C5 as stated fails at \<open>9:30\<close>: it is not a two-digit \<open>HH:MM\<close>, and the hook accepts
  it and leaves it as it is.
\<close>

theorem eventSchema_time_one_digit_counterexample:
  "\<not> spec_HHMM ''9:30'' \<and>
   eventSchema_preSave noEngine (onlyModified ''time'') (myEvent\<lparr>time := ''9:30''\<rparr>) =
     Inr (myEvent\<lparr>time := ''9:30''\<rparr>)"
proof -
  have "test timeRegex ''9:30''"
    by (simp add: timeRegex_def regex_eval)
  then show ?thesis
    by (simp add: eventSchema_preSave_def slugStep_def dateStep_def timeStep_def listsStep_def
          onlyModified_def myEvent_def)
qed

text \<open>
  C9. When the date is modified, the hook throws the invalid-date error exactly for the
  date strings that \<open>new Date\<close> does not parse; for a string that parses to the time
  value \<open>t\<close> it stores the UTC calendar date of \<open>t\<close> as \<open>YYYY-MM-DD\<close> (the later blocks
  of the hook passing), whatever the engine's own parser; and for
  \<open>2024-03-05T10:00:00Z\<close> that is \<open>2024-03-05\<close>.
\<close>

theorem eventSchema_date_normalisation:
  assumes "isModified ''date''"
  shows "(eventSchema_preSave engine isModified doc =
            Inl (Error ''Invalid date format. Use a valid date string.'')
          \<longleftrightarrow> dateParse engine (date doc) = None) \<and>
         (dateParse engine (date doc) = Some t \<and>
          (\<not> isModified ''time'' \<or> test timeRegex (time doc)) \<and>
          agenda doc \<noteq> [] \<and> tags doc \<noteq> [] \<longrightarrow>
            eventSchema_preSave engine isModified doc =
              Inr ((slugStep isModified doc)\<lparr>date := isoDateOnly t\<rparr>)) \<and>
         (date doc = ''2024-03-05T10:00:00Z'' \<and>
          (\<not> isModified ''time'' \<or> test timeRegex (time doc)) \<and>
          agenda doc \<noteq> [] \<and> tags doc \<noteq> [] \<longrightarrow>
            eventSchema_preSave engine isModified doc =
              Inr ((slugStep isModified doc)\<lparr>date := ''2024-03-05''\<rparr>))"
proof (intro conjI impI)
  show "eventSchema_preSave engine isModified doc =
            Inl (Error ''Invalid date format. Use a valid date string.'')
          \<longleftrightarrow> dateParse engine (date doc) = None"
    using assms
    by (auto simp: eventSchema_preSave_def dateStep_def timeStep_def listsStep_def
          split: option.splits)
next
  assume "dateParse engine (date doc) = Some t \<and>
          (\<not> isModified ''time'' \<or> test timeRegex (time doc)) \<and>
          agenda doc \<noteq> [] \<and> tags doc \<noteq> []"
  then show "eventSchema_preSave engine isModified doc =
              Inr ((slugStep isModified doc)\<lparr>date := isoDateOnly t\<rparr>)"
    using assms
    by (auto simp: eventSchema_preSave_def dateStep_def timeStep_def listsStep_def
          split_T_toISOString)
next
  assume "date doc = ''2024-03-05T10:00:00Z'' \<and>
          (\<not> isModified ''time'' \<or> test timeRegex (time doc)) \<and>
          agenda doc \<noteq> [] \<and> tags doc \<noteq> []"
  then show "eventSchema_preSave engine isModified doc =
              Inr ((slugStep isModified doc)\<lparr>date := ''2024-03-05''\<rparr>)"
    using assms
    by (auto simp: eventSchema_preSave_def dateStep_def timeStep_def listsStep_def
          date_example_parses date_example_prints)
qed

theorem eventSchema_date_normalisation_witness:
  "eventSchema_preSave noEngine newDocument (myEvent\<lparr>date := ''next Tuesday''\<rparr>) =
     Inl (Error ''Invalid date format. Use a valid date string.'') \<and>
   eventSchema_preSave noEngine newDocument (myEvent\<lparr>date := ''2024-03-05T01:00:00+05:30''\<rparr>) =
     Inr (myEvent\<lparr>date := ''2024-03-04''\<rparr>) \<and>
   eventSchema_preSave noEngine newDocument (myEvent\<lparr>date := ''2024-03-05T10:00:00Z''\<rparr>) =
     Inr (myEvent\<lparr>date := ''2024-03-05''\<rparr>)"
proof -
  have p: "dateParse noEngine ''next Tuesday'' = None"
    "dateParse noEngine ''2024-03-05T01:00:00+05:30'' = Some 1709580600000"
    "isoDateOnly 1709580600000 = ''2024-03-04''"
    by code_simp+
  have g: "generateSlug ''My Event'' = ''my-event''"
    by (simp add: generateSlug_def toLowerCase_def toLowerChar_def trim_def removeSpecial_def
          trimHyphens_def isHyphen_def char_eval char_of_def bit_Suc_0_iff)
  have s: "slugSetter ''my-event'' = ''my-event''"
    by (simp add: slugSetter_def toLowerCase_def toLowerChar_def trim_def char_eval)
  have t: "test timeRegex ''14:30''"
    by (simp add: timeRegex_def regex_eval)
  have n: "newDocument ''date''" by (simp add: newDocument_def)
  show ?thesis
    using eventSchema_date_normalisation
            [of newDocument noEngine "myEvent\<lparr>date := ''next Tuesday''\<rparr>" 0]
          eventSchema_date_normalisation
            [of newDocument noEngine "myEvent\<lparr>date := ''2024-03-05T01:00:00+05:30''\<rparr>"
                1709580600000]
          eventSchema_date_normalisation
            [of newDocument noEngine "myEvent\<lparr>date := ''2024-03-05T10:00:00Z''\<rparr>" 0]
          n p t
    by (simp add: slugStep_def newDocument_def myEvent_def g s)
qed

end
